theory Spec2Isabelle
  imports Complex_Main "HOL-Library.Log_Nat" "HOL-Library.Multiset"
begin

section \<open>JavaScript values\<close>

text \<open>
  The row callbacks of \<^verbatim>\<open>processExcelFile\<close> and \<^verbatim>\<open>processCSVFile\<close> and the update
  handler are written with four operations of the language: \<^verbatim>\<open>||\<close>, \<^verbatim>\<open>Number(v)\<close>,
  \<^verbatim>\<open>String(v)\<close> and \<^verbatim>\<open>x.toFixed(2)\<close>, and with the division and the multiplication of
  numbers. This section gives them as ECMA-262 defines them.

  A number is a binary64 value: not-a-number, an infinity with its sign, or a finite value
  with its sign (\<open>True\<close> is negative) and its magnitude, an exact rational. Both zeros
  exist, as \<open>Finite False 0\<close> and \<open>Finite True 0\<close>.
\<close>

datatype jsnum = NaN | Infinity bool | Finite bool rat

datatype jsval = JUndefined | JNull | JBool bool | JNum jsnum | JStr string

subsection \<open>Rounding to binary64\<close>

text \<open>\<open>ilog2 m\<close> is the integer \<open>e\<close> with \<open>2^e \<le> m < 2^(e+1)\<close>, for a positive \<open>m\<close>.\<close>

definition ilog2 :: "rat \<Rightarrow> int" where
  "ilog2 m = (let a = fst (quotient_of m); b = snd (quotient_of m); d = bitlen a - bitlen b
              in if 2 powi d \<le> m then d else d - 1)"

text \<open>Round to the nearest integer, a tie to the even one.\<close>

definition round_even :: "rat \<Rightarrow> int" where
  "round_even q = (let f = \<lfloor>q\<rfloor>; d = q - of_int f
                   in if d < 1 / 2 then f else if 1 / 2 < d then f + 1
                      else if even f then f else f + 1)"

text \<open>
  The binary64 value nearest to the magnitude \<open>\<bar>m\<bar>\<close>, with sign \<open>s\<close>: 53 significant
  bits, exponents from -1022 (below it the spacing stays at \<open>2^-1074\<close>), and an infinity
  from \<open>2^1024\<close> on.
\<close>

definition to_double :: "bool \<Rightarrow> rat \<Rightarrow> jsnum" where
  "to_double s m0 =
     (let m = \<bar>m0\<bar> in
      if m = 0 then Finite s 0
      else let e = max (ilog2 m) (- 1022);
               u = 2 powi (e - 52);
               r = of_int (round_even (m / u)) * u
           in if 2 ^ 1024 \<le> r then Infinity s else Finite s r)"

subsection \<open>Division and multiplication\<close>

fun jdiv :: "jsnum \<Rightarrow> jsnum \<Rightarrow> jsnum" where
  "jdiv NaN _ = NaN"
| "jdiv _ NaN = NaN"
| "jdiv (Infinity s) (Infinity t) = NaN"
| "jdiv (Infinity s) (Finite t b) = Infinity (s \<noteq> t)"
| "jdiv (Finite s a) (Infinity t) = Finite (s \<noteq> t) 0"
| "jdiv (Finite s a) (Finite t b) =
     (if b = 0 then (if a = 0 then NaN else Infinity (s \<noteq> t))
      else to_double (s \<noteq> t) (a / b))"

fun jmul :: "jsnum \<Rightarrow> jsnum \<Rightarrow> jsnum" where
  "jmul NaN _ = NaN"
| "jmul _ NaN = NaN"
| "jmul (Infinity s) (Infinity t) = Infinity (s \<noteq> t)"
| "jmul (Infinity s) (Finite t b) = (if b = 0 then NaN else Infinity (s \<noteq> t))"
| "jmul (Finite s a) (Infinity t) = (if a = 0 then NaN else Infinity (s \<noteq> t))"
| "jmul (Finite s a) (Finite t b) = to_double (s \<noteq> t) (a * b)"

subsection \<open>Truthiness and \<^verbatim>\<open>||\<close>\<close>

fun truthy :: "jsval \<Rightarrow> bool" where
  "truthy JUndefined = False"
| "truthy JNull = False"
| "truthy (JBool b) = b"
| "truthy (JNum NaN) = False"
| "truthy (JNum (Infinity s)) = True"
| "truthy (JNum (Finite s m)) = (m \<noteq> 0)"
| "truthy (JStr s) = (s \<noteq> [])"

text \<open>\<^verbatim>\<open>a || b\<close>: the left operand when it is truthy, the right one otherwise.\<close>

definition jor :: "jsval \<Rightarrow> jsval \<Rightarrow> jsval" where
  "jor a b = (if truthy a then a else b)"

subsection \<open>Decimal digits\<close>

definition digit_char :: "nat \<Rightarrow> char" where
  "digit_char d = ''0123456789'' ! d"

definition is_digit :: "char \<Rightarrow> bool" where
  "is_digit c = (c \<in> set ''0123456789'')"

definition digit_val :: "char \<Rightarrow> nat" where
  "digit_val c = of_char c - 48"

function digits :: "nat \<Rightarrow> string" where
  "digits n = (if n < 10 then [digit_char n] else digits (n div 10) @ [digit_char (n mod 10)])"
  by pat_completeness auto
termination
  by (relation "measure id") auto

definition digits_value :: "string \<Rightarrow> nat" where
  "digits_value ds = foldl (\<lambda>n c. 10 * n + digit_val c) 0 ds"

subsection \<open>\<^verbatim>\<open>Number(s)\<close> on a string\<close>

text \<open>
  StringToNumber: white space is trimmed at both ends, the empty text is \<open>+0\<close>, a text of
  the numeric grammar (a signed decimal with an optional fraction and exponent,
  \<^verbatim>\<open>Infinity\<close>, or an unsigned literal with prefix \<^verbatim>\<open>0x\<close>, \<^verbatim>\<open>0o\<close> or \<^verbatim>\<open>0b\<close>) is its value
  rounded to binary64, and anything else is \<open>NaN\<close>. Strings are lists of code units
  below 256; of the white space characters these are 9 to 13, 32 and 160.
\<close>

definition is_ws :: "char \<Rightarrow> bool" where
  "is_ws c = ((of_char c :: nat) \<in> {9, 10, 11, 12, 13, 32, 160})"

definition trim :: "string \<Rightarrow> string" where
  "trim s = rev (dropWhile is_ws (rev (dropWhile is_ws s)))"

fun parse_sign :: "string \<Rightarrow> bool \<times> string" where
  "parse_sign [] = (False, [])"
| "parse_sign (c # r) =
     (if c = CHR ''-'' then (True, r) else if c = CHR ''+'' then (False, r) else (False, c # r))"

text \<open>An optional exponent part: nothing, or \<^verbatim>\<open>e\<close> or \<^verbatim>\<open>E\<close>, an optional sign and digits.\<close>

definition parse_exponent :: "string \<Rightarrow> int option" where
  "parse_exponent s =
     (case s of [] \<Rightarrow> Some 0
      | c # r \<Rightarrow>
          if c = CHR ''e'' \<or> c = CHR ''E'' then
            (let sg = fst (parse_sign r); ds = snd (parse_sign r)
             in if ds \<noteq> [] \<and> list_all is_digit ds
                then Some (if sg then - int (digits_value ds) else int (digits_value ds))
                else None)
          else None)"

definition unsigned_decimal :: "string \<Rightarrow> rat option" where
  "unsigned_decimal s =
     (let ip = takeWhile is_digit s; r1 = dropWhile is_digit s;
          fp = (case r1 of [] \<Rightarrow> [] | c # t \<Rightarrow> if c = CHR ''.'' then takeWhile is_digit t else []);
          r2 = (case r1 of [] \<Rightarrow> [] | c # t \<Rightarrow> if c = CHR ''.'' then dropWhile is_digit t else r1)
      in if ip = [] \<and> fp = [] then None
         else case parse_exponent r2 of
                None \<Rightarrow> None
              | Some e \<Rightarrow>
                  Some ((of_nat (digits_value ip) + of_nat (digits_value fp) / 10 ^ length fp)
                        * 10 powi e))"

definition hex_val :: "char \<Rightarrow> nat" where
  "hex_val c = (if is_digit c then digit_val c
                else if c \<in> set ''abcdef'' then of_char c - 87
                else if c \<in> set ''ABCDEF'' then of_char c - 55
                else 16)"

definition radix_value :: "nat \<Rightarrow> string \<Rightarrow> nat option" where
  "radix_value b ds =
     (if ds \<noteq> [] \<and> list_all (\<lambda>c. hex_val c < b) ds
      then Some (foldl (\<lambda>n c. b * n + hex_val c) 0 ds) else None)"

definition non_decimal :: "string \<Rightarrow> nat option" where
  "non_decimal s =
     (case s of
        c # x # ds \<Rightarrow>
          if c \<noteq> CHR ''0'' then None
          else if x = CHR ''x'' \<or> x = CHR ''X'' then radix_value 16 ds
          else if x = CHR ''o'' \<or> x = CHR ''O'' then radix_value 8 ds
          else if x = CHR ''b'' \<or> x = CHR ''B'' then radix_value 2 ds
          else None
      | _ \<Rightarrow> None)"

definition StringToNumber :: "string \<Rightarrow> jsnum" where
  "StringToNumber str =
     (let t = trim str in
      if t = [] then Finite False 0
      else case non_decimal t of
             Some n \<Rightarrow> to_double False (of_nat n)
           | None \<Rightarrow>
               (let sg = fst (parse_sign t); u = snd (parse_sign t)
                in if u = ''Infinity'' then Infinity sg
                   else case unsigned_decimal u of
                          None \<Rightarrow> NaN
                        | Some v \<Rightarrow> to_double sg v))"

text \<open>\<^verbatim>\<open>Number(v)\<close>, and the coercion that \<^verbatim>\<open>/\<close> applies to its operands.\<close>

fun ToNumber :: "jsval \<Rightarrow> jsnum" where
  "ToNumber JUndefined = NaN"
| "ToNumber JNull = Finite False 0"
| "ToNumber (JBool b) = Finite False (if b then 1 else 0)"
| "ToNumber (JNum x) = x"
| "ToNumber (JStr s) = StringToNumber s"

subsection \<open>\<^verbatim>\<open>String(x)\<close> on a number\<close>

text \<open>
  Number::toString takes the least number \<open>k\<close> of digits for which some \<open>s\<close> of \<open>k\<close>
  digits and some \<open>n\<close> have \<open>s * 10^(n-k)\<close> round to the number, and of two such \<open>s\<close> the
  one nearer to it. \<open>dec_exponent m\<close> is the \<open>n\<close> with \<open>10^(n-1) \<le> m < 10^n\<close>.
\<close>

definition dec_exponent :: "rat \<Rightarrow> int" where
  "dec_exponent m =
     (let a = fst (quotient_of m); b = snd (quotient_of m);
          d = int (floorlog 10 (nat a)) - int (floorlog 10 (nat b))
      in if 10 powi d \<le> m then d + 1 else d)"

definition denotes :: "rat \<Rightarrow> nat \<Rightarrow> int \<Rightarrow> bool" where
  "denotes m s p = (to_double False (of_nat s * 10 powi p) = Finite False m)"

definition pick :: "rat \<Rightarrow> int \<Rightarrow> nat \<Rightarrow> (nat \<times> int) option" where
  "pick m n k =
     (let p = n - int k; sc = m / 10 powi p; lo = nat \<lfloor>sc\<rfloor>; hi = lo + 1;
          fst_try = (if sc - of_nat lo < 1 / 2 \<or> (sc - of_nat lo = 1 / 2 \<and> even lo)
                     then lo else hi);
          snd_try = (if fst_try = lo then hi else lo);
          found = (if denotes m fst_try p then Some fst_try
                   else if denotes m snd_try p then Some snd_try else None)
      in case found of
           None \<Rightarrow> None
         | Some s \<Rightarrow> Some (if s = 10 ^ k then (10 ^ (k - 1), p + 1) else (s, p)))"

text \<open>
  The search for the least \<open>k\<close>. A binary64 value has an exact decimal expansion of fewer
  than 800 digits, so the search ends before the bound.
\<close>

function shortest :: "rat \<Rightarrow> int \<Rightarrow> nat \<Rightarrow> nat \<times> int" where
  "shortest m n k =
     (case pick m n k of
        Some r \<Rightarrow> r
      | None \<Rightarrow> if 800 \<le> k then (nat \<lfloor>m / 10 powi (n - int k)\<rfloor>, n - int k)
                else shortest m n (Suc k))"
  by pat_completeness auto
termination
  by (relation "measure (\<lambda>(m, n, k). 800 - k)") auto

text \<open>The text of the digits \<open>ds\<close> of \<open>s\<close> with the decimal point after the \<open>n\<close>-th digit.\<close>

definition layout :: "string \<Rightarrow> int \<Rightarrow> string" where
  "layout ds n =
     (let k = int (length ds) in
      if k \<le> n \<and> n \<le> 21 then ds @ replicate (nat (n - k)) CHR ''0''
      else if 0 < n \<and> n \<le> 21 then take (nat n) ds @ ''.'' @ drop (nat n) ds
      else if - 6 < n \<and> n \<le> 0 then ''0.'' @ replicate (nat (- n)) CHR ''0'' @ ds
      else (let e = n - 1;
                es = (if e < 0 then ''-'' else ''+'') @ digits (nat \<bar>e\<bar>)
            in if k = 1 then ds @ ''e'' @ es
               else [hd ds] @ ''.'' @ tl ds @ ''e'' @ es))"

definition NumberToString :: "jsnum \<Rightarrow> string" where
  "NumberToString x =
     (case x of
        NaN \<Rightarrow> ''NaN''
      | Infinity s \<Rightarrow> (if s then ''-Infinity'' else ''Infinity'')
      | Finite s m \<Rightarrow>
          if m = 0 then ''0''
          else (let r = shortest m (dec_exponent m) 1; ds = digits (fst r)
                in (if s then ''-'' else []) @ layout ds (snd r + int (length ds))))"

text \<open>\<^verbatim>\<open>String(v)\<close>.\<close>

fun ToString :: "jsval \<Rightarrow> string" where
  "ToString JUndefined = ''undefined''"
| "ToString JNull = ''null''"
| "ToString (JBool b) = (if b then ''true'' else ''false'')"
| "ToString (JNum x) = NumberToString x"
| "ToString (JStr s) = s"

subsection \<open>\<^verbatim>\<open>x.toFixed(2)\<close>\<close>

text \<open>
  Number.prototype.toFixed with two fraction digits: a value that is not finite gives its
  Number::toString text; a magnitude from \<open>10^21\<close> on gives the Number::toString text as
  well; below it the text is the integer \<open>n\<close> nearest to a hundred times the magnitude
  (the larger of two), padded to three digits, with a point before its last two digits.
  A negative value has a minus sign in front.
\<close>

definition fixed2 :: "nat \<Rightarrow> string" where
  "fixed2 n =
     (let ds0 = digits n;
          ds = (if length ds0 \<le> 2 then replicate (3 - length ds0) CHR ''0'' @ ds0 else ds0)
      in take (length ds - 2) ds @ ''.'' @ drop (length ds - 2) ds)"

definition toFixed2 :: "jsnum \<Rightarrow> string" where
  "toFixed2 x =
     (case x of
        NaN \<Rightarrow> NumberToString x
      | Infinity s \<Rightarrow> NumberToString x
      | Finite s m \<Rightarrow>
          (if s \<and> 0 < m then ''-'' else []) @
          (if 10 ^ 21 \<le> m then NumberToString (Finite False m)
           else fixed2 (nat \<lfloor>m * 100 + 1 / 2\<rfloor>)))"

section \<open>The record normalizer\<close>

text \<open>
  A parsed row is an object whose keys are the column headers. \<open>get_prop r k\<close> is the
  property access \<^verbatim>\<open>r.k\<close> or \<^verbatim>\<open>r['k']\<close>: \<^verbatim>\<open>undefined\<close> when the row has no such key.
  The spreadsheet reader gives numbers, strings and booleans as cell values, the CSV reader
  strings only.
\<close>

type_synonym object = "(string \<times> jsval) list"

definition get_prop :: "object \<Rightarrow> string \<Rightarrow> jsval" where
  "get_prop r k = (case map_of r k of None \<Rightarrow> JUndefined | Some v \<Rightarrow> v)"

record student =
  student_id :: string
  student_name :: string
  total_marks :: jsnum
  marks_obtained :: jsnum
  percentage :: jsnum

text \<open>The callback of \<^verbatim>\<open>data.map\<close> in \<^verbatim>\<open>processExcelFile\<close> (server.js, lines 136 to 147).\<close>

definition excel_row :: "object \<Rightarrow> student" where
  "excel_row row =
     (let totalMarks = ToNumber (jor (jor (get_prop row ''Total_Marks'') (get_prop row ''total_marks''))
                                     (get_prop row ''Total Marks''));
          marksObtained = ToNumber (jor (jor (get_prop row ''Marks_Obtained'') (get_prop row ''marks_obtained''))
                                        (get_prop row ''Marks Obtained''))
      in \<lparr> student_id = ToString (jor (jor (get_prop row ''Student_ID'') (get_prop row ''student_id''))
                                      (get_prop row ''Student ID'')),
           student_name = ToString (jor (jor (get_prop row ''Student_Name'') (get_prop row ''student_name''))
                                        (get_prop row ''Student Name'')),
           total_marks = totalMarks,
           marks_obtained = marksObtained,
           percentage = StringToNumber (toFixed2 (jmul (jdiv marksObtained totalMarks)
                                                       (Finite False 100))) \<rparr>)"

text \<open>The callback of \<^verbatim>\<open>parsed.data.map\<close> in \<^verbatim>\<open>processCSVFile\<close> (lines 160 to 171).\<close>

definition csv_row :: "object \<Rightarrow> student" where
  "csv_row row =
     (let totalMarks = ToNumber (jor (jor (get_prop row ''Total_Marks'') (get_prop row ''total_marks''))
                                     (get_prop row ''Total Marks''));
          marksObtained = ToNumber (jor (jor (get_prop row ''Marks_Obtained'') (get_prop row ''marks_obtained''))
                                        (get_prop row ''Marks Obtained''))
      in \<lparr> student_id = ToString (jor (jor (get_prop row ''Student_ID'') (get_prop row ''student_id''))
                                      (get_prop row ''Student ID'')),
           student_name = ToString (jor (jor (get_prop row ''Student_Name'') (get_prop row ''student_name''))
                                        (get_prop row ''Student Name'')),
           total_marks = totalMarks,
           marks_obtained = marksObtained,
           percentage = StringToNumber (toFixed2 (jmul (jdiv marksObtained totalMarks)
                                                       (Finite False 100))) \<rparr>)"

text \<open>
  The parsers are libraries. \<open>xlsx_rows\<close> stands for \<^verbatim>\<open>xlsx.read\<close> followed by
  \<^verbatim>\<open>sheet_to_json\<close> on the first sheet, \<open>buffer_toString\<close> for \<^verbatim>\<open>buffer.toString()\<close> and
  \<open>Papa_parse\<close> for the \<^verbatim>\<open>data\<close> of \<^verbatim>\<open>Papa.parse\<close> with a header row; \<open>None\<close> is a
  call that throws.
\<close>

type_synonym buffer = "nat list"

record libs =
  xlsx_rows :: "buffer \<Rightarrow> object list option"
  buffer_toString :: "buffer \<Rightarrow> string"
  Papa_parse :: "string \<Rightarrow> object list option"

text \<open>
  Both functions wrap their body in \<^verbatim>\<open>try\<close> and throw a new error with a fixed message
  from the \<^verbatim>\<open>catch\<close>. \<open>Inl\<close> is the message of the error thrown.
\<close>

definition processExcelFile :: "libs \<Rightarrow> buffer \<Rightarrow> string + student list" where
  "processExcelFile L buf =
     (case xlsx_rows L buf of
        None \<Rightarrow> Inl ''Failed to process Excel file''
      | Some data \<Rightarrow> Inr (map excel_row data))"

definition processCSVFile :: "libs \<Rightarrow> buffer \<Rightarrow> string + student list" where
  "processCSVFile L buf =
     (let csvData = buffer_toString L buf in
      case Papa_parse L csvData of
        None \<Rightarrow> Inl ''Failed to process CSV file''
      | Some data \<Rightarrow> Inr (map csv_row data))"

section \<open>The stores\<close>

text \<open>
  A stored student is a document: its identifier, its creation time and its fields. The
  history is a list of entries. The object mapper and the database are libraries; what
  they do is modelled at the level of the calls the handlers make. A call can be rejected
  for a reason outside the handler (no connection, a value the mapper does not accept): the
  environment of a request says which calls are, and with which message. Values are stored
  as they are submitted.
\<close>

record student_doc =
  doc_id :: string
  created_at :: nat
  doc_fields :: object

record history_entry =
  filename :: string
  file_type :: string
  students_count :: nat
  upload_date :: nat
  file_size :: nat
  entry_status :: string

record db =
  students :: "student_doc list"
  history :: "history_entry list"

record env =
  readyState :: nat
  now :: nat
  new_id :: "nat \<Rightarrow> string"
  deleteMany_fault :: "string option"
  insertMany_fault :: "(nat \<times> string) option"
  create_fault :: "string option"
  create_fault_in_catch :: "string option"
  find_fault :: "string option"
  findByIdAndUpdate_fault :: "string option"
  findByIdAndDelete_fault :: "string option"

definition student_fields :: "student \<Rightarrow> object" where
  "student_fields s =
     [(''student_id'', JStr (student_id s)), (''student_name'', JStr (student_name s)),
      (''total_marks'', JNum (total_marks s)), (''marks_obtained'', JNum (marks_obtained s)),
      (''percentage'', JNum (percentage s))]"

definition new_doc :: "env \<Rightarrow> nat \<Rightarrow> student \<Rightarrow> student_doc" where
  "new_doc E i s = \<lparr> doc_id = new_id E i, created_at = now E, doc_fields = student_fields s \<rparr>"

definition Student_deleteMany :: "env \<Rightarrow> db \<Rightarrow> string + db" where
  "Student_deleteMany E d =
     (case deleteMany_fault E of Some e \<Rightarrow> Inl e | None \<Rightarrow> Inr (d\<lparr>students := []\<rparr>))"

text \<open>
  An ordered bulk insert: the documents are written one after the other; the write stops
  at a document whose \<open>student_id\<close> is already stored (the schema declares it unique), or
  where the environment says so, and the documents written before it stay.
\<close>

definition fault_at :: "(nat \<times> string) option \<Rightarrow> nat \<Rightarrow> string option" where
  "fault_at flt i = (case flt of None \<Rightarrow> None | Some (k, e) \<Rightarrow> if k = i then Some e else None)"

fun insert_ordered ::
  "(nat \<times> string) option \<Rightarrow> nat \<Rightarrow> student_doc list \<Rightarrow> student_doc list
   \<Rightarrow> string option \<times> student_doc list" where
  "insert_ordered flt i [] store = (None, store)"
| "insert_ordered flt i (d # ds) store =
     (case fault_at flt i of
        Some e \<Rightarrow> (Some e, store)
      | None \<Rightarrow>
          if get_prop (doc_fields d) ''student_id''
               \<in> set (map (\<lambda>x. get_prop (doc_fields x) ''student_id'') store)
          then (Some ''E11000 duplicate key error'', store)
          else insert_ordered flt (Suc i) ds (store @ [d]))"

definition Student_insertMany :: "env \<Rightarrow> student list \<Rightarrow> db \<Rightarrow> string option \<times> db" where
  "Student_insertMany E ss d =
     (let r = insert_ordered (insertMany_fault E) 0 (map (\<lambda>(i, s). new_doc E i s) (enumerate 0 ss))
                (students d)
      in (fst r, d\<lparr>students := snd r\<rparr>))"

definition UploadHistory_create :: "string option \<Rightarrow> history_entry \<Rightarrow> db \<Rightarrow> string + db" where
  "UploadHistory_create flt h d =
     (case flt of Some e \<Rightarrow> Inl e | None \<Rightarrow> Inr (d\<lparr>history := history d @ [h]\<rparr>))"

text \<open>An identifier is accepted when it is 24 hexadecimal digits.\<close>

definition isValidObjectId :: "string \<Rightarrow> bool" where
  "isValidObjectId s = (length s = 24 \<and> list_all (\<lambda>c. hex_val c < 16) s)"

definition set_field :: "string \<Rightarrow> jsval \<Rightarrow> object \<Rightarrow> object" where
  "set_field k v ob = (if k \<in> set (map fst ob) then map (\<lambda>(k', v'). if k' = k then (k', v) else (k', v')) ob
                       else ob @ [(k, v)])"

definition merge_fields :: "object \<Rightarrow> object \<Rightarrow> object" where
  "merge_fields ob upd = foldl (\<lambda>acc (k, v). set_field k v acc) ob upd"

text \<open>
  \<open>Inl\<close> is a rejected call, \<open>Inr (None, d)\<close> the answer \<^verbatim>\<open>null\<close> for an identifier that
  no document has, and \<open>Inr (Some doc, d')\<close> the document after the update (the handler
  asks for it with \<^verbatim>\<open>new: true\<close>).
\<close>

definition Student_findByIdAndUpdate ::
  "env \<Rightarrow> string \<Rightarrow> object \<Rightarrow> db \<Rightarrow> string + (student_doc option \<times> db)" where
  "Student_findByIdAndUpdate E ident upd d =
     (if \<not> isValidObjectId ident then Inl ''Cast to ObjectId failed''
      else case findByIdAndUpdate_fault E of
             Some e \<Rightarrow> Inl e
           | None \<Rightarrow>
              (case find (\<lambda>x. doc_id x = ident) (students d) of
                 None \<Rightarrow> Inr (None, d)
               | Some x \<Rightarrow>
                   (let x' = x\<lparr>doc_fields := merge_fields (doc_fields x) upd\<rparr>
                    in Inr (Some x',
                            d\<lparr>students := map (\<lambda>y. if doc_id y = ident then x' else y) (students d)\<rparr>))))"

definition Student_findByIdAndDelete ::
  "env \<Rightarrow> string \<Rightarrow> db \<Rightarrow> string + (student_doc option \<times> db)" where
  "Student_findByIdAndDelete E ident d =
     (if \<not> isValidObjectId ident then Inl ''Cast to ObjectId failed''
      else case findByIdAndDelete_fault E of
             Some e \<Rightarrow> Inl e
           | None \<Rightarrow>
              (case find (\<lambda>x. doc_id x = ident) (students d) of
                 None \<Rightarrow> Inr (None, d)
               | Some x \<Rightarrow> Inr (Some x, d\<lparr>students := filter (\<lambda>y. doc_id y \<noteq> ident) (students d)\<rparr>)))"

section \<open>The request handlers of server.js\<close>

datatype json =
    ErrorBody string "string option"
  | ConnectionErrorBody string nat
  | UploadBody string nat "student list"
  | StudentsBody "student_doc list"
  | StudentBody "student_doc option"
  | MessageBody string

record response =
  status :: nat
  body :: json

record upload_file =
  originalname :: string
  mimetype :: string
  size :: nat
  buffer :: buffer

subsection \<open>The upload\<close>

text \<open>\<^verbatim>\<open>s.includes(sub)\<close>.\<close>

fun str_includes :: "string \<Rightarrow> string \<Rightarrow> bool" where
  "str_includes [] sub = (sub = [])"
| "str_includes (c # cs) sub = (take (length sub) (c # cs) = sub \<or> str_includes cs sub)"

definition allowedTypes :: "string list" where
  "allowedTypes =
     [''application/vnd.openxmlformats-officedocument.spreadsheetml.sheet'',
      ''text/csv'',
      ''application/vnd.ms-excel'']"

text \<open>The file filter given to the upload middleware: \<open>Some\<close> is the error it passes on.\<close>

definition fileFilter :: "upload_file \<Rightarrow> string option" where
  "fileFilter f =
     (if mimetype f \<in> set allowedTypes then None
      else Some ''Invalid file type. Only Excel and CSV files allowed.'')"

text \<open>
  \<^verbatim>\<open>upload.single('file')\<close>: a request without a file goes on without one; a file is
  filtered first and then read up to the size limit. An error goes to the error handler of
  the application instead of the route handler.
\<close>

definition upload_single :: "upload_file option \<Rightarrow> string + upload_file option" where
  "upload_single fo =
     (case fo of
        None \<Rightarrow> Inr None
      | Some f \<Rightarrow>
          (case fileFilter f of
             Some e \<Rightarrow> Inl e
           | None \<Rightarrow> if 5 * 1024 * 1024 < size f then Inl ''File too large'' else Inr (Some f)))"

text \<open>The error handling middleware (lines 358 to 364).\<close>

definition error_middleware :: "string \<Rightarrow> response" where
  "error_middleware e = \<lparr> status = 500, body = ErrorBody ''Internal server error'' (Some e) \<rparr>"

text \<open>How the \<^verbatim>\<open>try\<close> block of the upload handler ends: it returns, or it throws.\<close>

datatype attempt = Returned response db | Thrown string db

definition history_of :: "env \<Rightarrow> upload_file \<Rightarrow> nat \<Rightarrow> string \<Rightarrow> history_entry" where
  "history_of E f n st =
     \<lparr> filename = originalname f,
       file_type = (if str_includes (mimetype f) ''csv'' then ''CSV'' else ''Excel''),
       students_count = n,
       upload_date = now E,
       file_size = size f,
       entry_status = st \<rparr>"

text \<open>
  Lines 206 to 231: what follows the normalisation, whose result is \<open>r\<close> (an error
  thrown by it leaves the \<^verbatim>\<open>try\<close> block at once).
\<close>

definition replace_and_record :: "env \<Rightarrow> db \<Rightarrow> upload_file \<Rightarrow> string + student list \<Rightarrow> attempt" where
  "replace_and_record E d f r =
     (case r of
        Inl e \<Rightarrow> Thrown e d
      | Inr studentsData \<Rightarrow>
          if readyState E \<noteq> 1 then Thrown ''Database not connected'' d
          else
            (case Student_deleteMany E d of
               Inl e \<Rightarrow> Thrown e d
             | Inr d1 \<Rightarrow>
                (case Student_insertMany E studentsData d1 of
                   (Some e, d2) \<Rightarrow> Thrown e d2
                 | (None, d2) \<Rightarrow>
                    (case UploadHistory_create (create_fault E)
                            (history_of E f (length studentsData) ''success'') d2 of
                       Inl e \<Rightarrow> Thrown e d2
                     | Inr d3 \<Rightarrow>
                         Returned \<lparr> status = 200,
                                    body = UploadBody ''File uploaded successfully''
                                             (length studentsData) studentsData \<rparr> d3))))"

text \<open>Lines 196 to 204: the choice of the normaliser by the media type.\<close>

definition upload_try :: "libs \<Rightarrow> env \<Rightarrow> db \<Rightarrow> upload_file \<Rightarrow> attempt" where
  "upload_try L E d f =
     (if str_includes (mimetype f) ''sheet'' \<or> str_includes (mimetype f) ''excel''
      then replace_and_record E d f (processExcelFile L (buffer f))
      else if str_includes (mimetype f) ''csv''
      then replace_and_record E d f (processCSVFile L (buffer f))
      else Returned \<lparr> status = 400, body = ErrorBody ''Unsupported file format'' None \<rparr> d)"

text \<open>
  The handler of \<^verbatim>\<open>POST /api/upload\<close> (lines 181 to 255). The \<^verbatim>\<open>catch\<close> block writes an
  entry for the failed upload, drops an error of that write, and answers 500.
\<close>

definition upload_handler :: "libs \<Rightarrow> env \<Rightarrow> db \<Rightarrow> upload_file option \<Rightarrow> response \<times> db" where
  "upload_handler L E d fo =
     (case fo of
        None \<Rightarrow> (\<lparr> status = 400, body = ErrorBody ''No file uploaded'' None \<rparr>, d)
      | Some f \<Rightarrow>
          (case upload_try L E d f of
             Returned r d' \<Rightarrow> (r, d')
           | Thrown e d' \<Rightarrow>
               (\<lparr> status = 500, body = ErrorBody ''Failed to process file'' (Some e) \<rparr>,
                case UploadHistory_create (create_fault_in_catch E) (history_of E f 0 ''error'') d' of
                  Inl historyError \<Rightarrow> d'
                | Inr d'' \<Rightarrow> d'')))"

text \<open>The route: the middleware, then the handler or the error handler.\<close>

definition post_upload :: "libs \<Rightarrow> env \<Rightarrow> db \<Rightarrow> upload_file option \<Rightarrow> response \<times> db" where
  "post_upload L E d fo =
     (case upload_single fo of
        Inl e \<Rightarrow> (error_middleware e, d)
      | Inr fo' \<Rightarrow> upload_handler L E d fo')"

subsection \<open>Listing, update and deletion\<close>

text \<open>\<^verbatim>\<open>Student.find().sort({ created_at: -1 })\<close>: the newest first.\<close>

definition Student_find_sorted :: "env \<Rightarrow> db \<Rightarrow> string + student_doc list" where
  "Student_find_sorted E d =
     (case find_fault E of
        Some e \<Rightarrow> Inl e
      | None \<Rightarrow> Inr (sort_key (\<lambda>x. - int (created_at x)) (students d)))"

definition get_students :: "env \<Rightarrow> db \<Rightarrow> response" where
  "get_students E d =
     (if readyState E \<noteq> 1
      then \<lparr> status = 500, body = ConnectionErrorBody ''Database connection error'' (readyState E) \<rparr>
      else case Student_find_sorted E d of
             Inl e \<Rightarrow> \<lparr> status = 500, body = ErrorBody ''Failed to fetch students'' (Some e) \<rparr>
           | Inr docs \<Rightarrow> \<lparr> status = 200, body = StudentsBody docs \<rparr>)"

text \<open>
  The handler of \<^verbatim>\<open>PUT /api/students/:id\<close> (lines 310 to 336). The update it sends is the
  request body with \<open>percentage\<close> set to the value computed here.
\<close>

definition put_student :: "env \<Rightarrow> db \<Rightarrow> string \<Rightarrow> object \<Rightarrow> response \<times> db" where
  "put_student E d ident req_body =
     (let total_marks = get_prop req_body ''total_marks'';
          marks_obtained = get_prop req_body ''marks_obtained'';
          percentage = StringToNumber (toFixed2 (jmul (jdiv (ToNumber marks_obtained)
                                                            (ToNumber total_marks))
                                                      (Finite False 100)))
      in case Student_findByIdAndUpdate E ident
                (set_field ''percentage'' (JNum percentage) req_body) d of
           Inl e \<Rightarrow> (\<lparr> status = 500, body = ErrorBody ''Failed to update student'' (Some e) \<rparr>, d)
         | Inr (None, d') \<Rightarrow> (\<lparr> status = 404, body = ErrorBody ''Student not found'' None \<rparr>, d')
         | Inr (Some student, d') \<Rightarrow> (\<lparr> status = 200, body = StudentBody (Some student) \<rparr>, d'))"

text \<open>The handler of \<^verbatim>\<open>DELETE /api/students/:id\<close> (lines 339 to 355).\<close>

definition delete_student :: "env \<Rightarrow> db \<Rightarrow> string \<Rightarrow> response \<times> db" where
  "delete_student E d ident =
     (case Student_findByIdAndDelete E ident d of
        Inl e \<Rightarrow> (\<lparr> status = 500, body = ErrorBody ''Failed to delete student'' (Some e) \<rparr>, d)
      | Inr (None, d') \<Rightarrow> (\<lparr> status = 404, body = ErrorBody ''Student not found'' None \<rparr>, d')
      | Inr (Some student, d') \<Rightarrow>
          (\<lparr> status = 200, body = MessageBody ''Student deleted successfully'' \<rparr>, d'))"

section \<open>The handlers of the second server file\<close>

text \<open>
  The repository has a second file with the same routes. Its update and deletion handlers
  (lines 116 to 144 of that file) send the result of the store call without looking at it.
\<close>

definition put_student_2 :: "env \<Rightarrow> db \<Rightarrow> string \<Rightarrow> object \<Rightarrow> response \<times> db" where
  "put_student_2 E d ident req_body =
     (let total_marks = get_prop req_body ''total_marks'';
          marks_obtained = get_prop req_body ''marks_obtained'';
          percentage = StringToNumber (toFixed2 (jmul (jdiv (ToNumber marks_obtained)
                                                            (ToNumber total_marks))
                                                      (Finite False 100)))
      in case Student_findByIdAndUpdate E ident
                (set_field ''percentage'' (JNum percentage) req_body) d of
           Inl e \<Rightarrow> (\<lparr> status = 500, body = ErrorBody ''Failed to update student'' None \<rparr>, d)
         | Inr (student, d') \<Rightarrow> (\<lparr> status = 200, body = StudentBody student \<rparr>, d'))"

definition delete_student_2 :: "env \<Rightarrow> db \<Rightarrow> string \<Rightarrow> response \<times> db" where
  "delete_student_2 E d ident =
     (case Student_findByIdAndDelete E ident d of
        Inl e \<Rightarrow> (\<lparr> status = 500, body = ErrorBody ''Failed to delete student'' None \<rparr>, d)
      | Inr (student, d') \<Rightarrow>
          (\<lparr> status = 200, body = MessageBody ''Student deleted successfully'' \<rparr>, d'))"

section \<open>Sample inputs\<close>

text \<open>
  Concrete libraries, environments and requests, used where a statement is evaluated on an
  input. The sample parsers ignore the bytes and give two rows, or throw.
\<close>

definition sample_rows :: "object list" where
  "sample_rows =
     [[(''Student_ID'', JStr ''S1''), (''Student_Name'', JStr ''Alice''),
       (''Total_Marks'', JNum (Finite False 100)), (''Marks_Obtained'', JNum (Finite False 50))],
      [(''Student_ID'', JStr ''S2''), (''Student_Name'', JStr ''Bob''),
       (''Total_Marks'', JNum (Finite False 50)), (''Marks_Obtained'', JNum (Finite False 25))]]"

definition sample_libs :: libs where
  "sample_libs = \<lparr> xlsx_rows = (\<lambda>b. Some sample_rows), buffer_toString = map char_of,
                    Papa_parse = (\<lambda>s. Some sample_rows) \<rparr>"

definition failing_libs :: libs where
  "failing_libs = \<lparr> xlsx_rows = (\<lambda>b. None), buffer_toString = map char_of,
                     Papa_parse = (\<lambda>s. None) \<rparr>"

definition sample_oid :: "nat \<Rightarrow> string" where
  "sample_oid i = replicate (24 - length (digits i)) CHR ''0'' @ digits i"

definition sample_env :: env where
  "sample_env = \<lparr> readyState = 1, now = 1000, new_id = sample_oid,
                   deleteMany_fault = None, insertMany_fault = None, create_fault = None,
                   create_fault_in_catch = None, find_fault = None,
                   findByIdAndUpdate_fault = None, findByIdAndDelete_fault = None \<rparr>"

text \<open>No connection: the state is not 1 and the store calls are rejected.\<close>

definition offline_env :: env where
  "offline_env = \<lparr> readyState = 0, now = 1000, new_id = sample_oid,
                    deleteMany_fault = Some ''buffering timed out'',
                    insertMany_fault = Some (0, ''buffering timed out''),
                    create_fault = Some ''buffering timed out'',
                    create_fault_in_catch = Some ''buffering timed out'',
                    find_fault = Some ''buffering timed out'',
                    findByIdAndUpdate_fault = Some ''buffering timed out'',
                    findByIdAndDelete_fault = Some ''buffering timed out'' \<rparr>"

definition empty_db :: db where
  "empty_db = \<lparr> students = [], history = [] \<rparr>"

definition sample_db :: db where
  "sample_db =
     \<lparr> students = [\<lparr> doc_id = ''65f000000000000000000001'', created_at = 10,
                       doc_fields = [(''student_id'', JStr ''S9''), (''student_name'', JStr ''Zoe''),
                                     (''total_marks'', JNum (Finite False 10)),
                                     (''marks_obtained'', JNum (Finite False 9)),
                                     (''percentage'', JNum (Finite False 90))] \<rparr>],
       history = [] \<rparr>"

definition sample_xlsx :: upload_file where
  "sample_xlsx = \<lparr> originalname = ''grades.xlsx'',
                    mimetype = ''application/vnd.openxmlformats-officedocument.spreadsheetml.sheet'',
                    size = 2048, buffer = [] \<rparr>"

definition sample_csv :: upload_file where
  "sample_csv = \<lparr> originalname = ''grades.csv'', mimetype = ''text/csv'', size = 64, buffer = [] \<rparr>"

definition sample_pdf :: upload_file where
  "sample_pdf = \<lparr> originalname = ''notes.pdf'', mimetype = ''application/pdf'', size = 1000,
                   buffer = [] \<rparr>"

section \<open>Auxiliary notions for the proofs\<close>

text \<open>The characters of the texts that the number formatting produces.\<close>

definition plain_char :: "char \<Rightarrow> bool" where
  "plain_char c = (is_digit c \<or> c \<in> set ''.-+e'')"

section \<open>The rounding of the specification\<close>

text \<open>
  The specification gives the percentage as \<^verbatim>\<open>round(marks_obtained / total_marks * 100, 2)\<close>.
  \<open>round_2dp_spec\<close> follows these words, apart from the code: the number of hundredths
  nearest to the value (a half counts upwards in magnitude), as a binary64 number; a value
  that is not finite has nothing to round. \<open>SameValueZero\<close> is the equality of numbers
  that does not tell the two zeros apart.
\<close>

definition round_2dp_spec :: "jsnum \<Rightarrow> jsnum" where
  "round_2dp_spec x =
     (case x of
        NaN \<Rightarrow> NaN
      | Infinity s \<Rightarrow> Infinity s
      | Finite s m \<Rightarrow> to_double s (of_int \<lfloor>m * 100 + 1 / 2\<rfloor> / 100))"

fun SameValueZero :: "jsnum \<Rightarrow> jsnum \<Rightarrow> bool" where
  "SameValueZero (Finite s a) (Finite t b) = (a = b \<and> (s = t \<or> a = 0))"
| "SameValueZero x y = (x = y)"

section \<open>Properties of the number operations\<close>

subsection \<open>Rounding to binary64\<close>


lemma of_int_pow2: "0 \<le> k \<Longrightarrow> rat_of_int (2 ^ nat k) = 2 powi k"
  by (simp add: power_int_def)

lemma ilog2_bounds:
  assumes "0 < m"
  shows "2 powi (ilog2 m) \<le> m" and "m < 2 powi (ilog2 m + 1)"
proof -
  obtain a b where q: "quotient_of m = (a, b)" by (cases "quotient_of m")
  have b: "0 < b" using quotient_of_denom_pos[OF q] .
  have m: "m = of_int a / of_int b" using quotient_of_div[OF q] .
  have a: "0 < a" using assms m b by (simp add: zero_less_divide_iff)
  define la lb where "la = bitlen a" and "lb = bitlen b"
  have la: "2 ^ nat (la - 1) \<le> a" "a < 2 ^ nat la"
    using bitlen_bounds[OF a] by (auto simp: la_def)
  have lb: "2 ^ nat (lb - 1) \<le> b" "b < 2 ^ nat lb"
    using bitlen_bounds[OF b] by (auto simp: lb_def)
  have pos: "1 \<le> la" "1 \<le> lb"
    using a b bitlen_eq_zero_iff[of a] bitlen_eq_zero_iff[of b] bitlen_nonneg[of a] bitlen_nonneg[of b]
    by (auto simp: la_def lb_def)
  have A1: "2 powi (la - 1) \<le> rat_of_int a"
    using la(1) pos(1) of_int_pow2[of "la - 1"] by (metis diff_ge_0_iff_ge of_int_le_iff)
  have A2: "rat_of_int a < 2 powi la"
    using la(2) pos(1) of_int_pow2[of la] by (metis of_int_less_iff order_trans zero_le_one)
  have B1: "2 powi (lb - 1) \<le> rat_of_int b"
    using lb(1) pos(2) of_int_pow2[of "lb - 1"] by (metis diff_ge_0_iff_ge of_int_le_iff)
  have B2: "rat_of_int b < 2 powi lb"
    using lb(2) pos(2) of_int_pow2[of lb] by (metis of_int_less_iff order_trans zero_le_one)
  have lo: "2 powi (la - lb - 1) < m"
  proof -
    have "2 powi (la - 1) / 2 powi lb < rat_of_int a / rat_of_int b"
      by (rule frac_less2) (use A1 B2 b in simp_all)
    moreover have "(2::rat) powi (la - lb - 1) = 2 powi (la - 1) / 2 powi lb"
      using power_int_diff[of "2::rat" "la - 1" lb] by (simp add: algebra_simps)
    ultimately show ?thesis by (simp add: m)
  qed
  have hi: "m < 2 powi (la - lb + 1)"
  proof -
    have "rat_of_int a / rat_of_int b < 2 powi la / 2 powi (lb - 1)"
      by (rule frac_less) (use A2 B1 a in simp_all)
    moreover have "(2::rat) powi (la - lb + 1) = 2 powi la / 2 powi (lb - 1)"
      using power_int_diff[of "2::rat" la "lb - 1"] by (simp add: algebra_simps)
    ultimately show ?thesis by (simp add: m)
  qed
  have il: "ilog2 m = (if 2 powi (la - lb) \<le> m then la - lb else la - lb - 1)"
    by (simp add: ilog2_def q la_def lb_def Let_def)
  show "2 powi (ilog2 m) \<le> m" using lo by (simp add: il)
  show "m < 2 powi (ilog2 m + 1)" using hi by (auto simp: il not_le)
qed

lemma ilog2_unique:
  assumes "0 < m" "2 powi e \<le> m" "m < 2 powi (e + 1)"
  shows "ilog2 m = e"
proof -
  have 1: "(2::rat) powi (ilog2 m) < 2 powi (e + 1)"
    using ilog2_bounds(1)[OF assms(1)] assms(3) by simp
  have 2: "(2::rat) powi e < 2 powi (ilog2 m + 1)"
    using ilog2_bounds(2)[OF assms(1)] assms(2) by simp
  have "ilog2 m < e + 1"
  proof (rule ccontr)
    assume "\<not> ilog2 m < e + 1"
    then have "(2::rat) powi (e + 1) \<le> 2 powi (ilog2 m)"
      by (intro power_int_increasing) simp_all
    with 1 show False by simp
  qed
  moreover have "e < ilog2 m + 1"
  proof (rule ccontr)
    assume "\<not> e < ilog2 m + 1"
    then have "(2::rat) powi (ilog2 m + 1) \<le> 2 powi e"
      by (intro power_int_increasing) simp_all
    with 2 show False by simp
  qed
  ultimately show ?thesis by simp
qed

lemma round_even_of_int: "round_even (of_int n) = n"
  by (simp add: round_even_def)

lemma round_even_nonneg: "0 \<le> x \<Longrightarrow> 0 \<le> round_even x"
  by (auto simp: round_even_def Let_def)

lemma round_even_le:
  assumes "x \<le> of_int N"
  shows "round_even x \<le> N"
proof -
  have f: "\<lfloor>x\<rfloor> \<le> N"
    using assms by (simp add: floor_le_iff)
  have "\<lfloor>x\<rfloor> + 1 \<le> N" if "1 / 2 \<le> x - of_int \<lfloor>x\<rfloor>"
  proof -
    have "x \<noteq> of_int N" using that by auto
    then have "x < of_int N" using assms by simp
    then have "\<lfloor>x\<rfloor> < N" by (simp add: floor_less_iff)
    then show ?thesis by simp
  qed
  then show ?thesis using f by (auto simp: round_even_def Let_def not_less)
qed

lemma to_double_exact:
  assumes n: "0 < n" "n < 2 ^ 53" and q: "- 1074 \<le> q"
    and lt: "rat_of_int n * 2 powi q < 2 ^ 1024"
  shows "to_double s (of_int n * 2 powi q) = Finite s (of_int n * 2 powi q)"
proof -
  define m where "m = rat_of_int n * 2 powi q"
  have mpos: "0 < m" using n(1) by (simp add: m_def)
  have "rat_of_int n < 2 ^ 53" using n(2) by (metis of_int_less_iff of_int_numeral of_int_power)
  then have "m < 2 ^ 53 * 2 powi q" by (simp add: m_def)
  also have "\<dots> = 2 powi (q + 53)"
    using power_int_add[of "2::rat" q 53] by simp
  finally have mlt: "m < 2 powi (q + 53)" .
  have il: "ilog2 m \<le> q + 52"
  proof (rule ccontr)
    assume "\<not> ilog2 m \<le> q + 52"
    then have "(2::rat) powi (q + 53) \<le> 2 powi (ilog2 m)"
      by (intro power_int_increasing) simp_all
    with ilog2_bounds(1)[OF mpos] mlt show False by simp
  qed
  define e where "e = max (ilog2 m) (- 1022)"
  have e: "e \<le> q + 52" using il q by (simp add: e_def)
  have "m / 2 powi (e - 52) = rat_of_int n * 2 powi (q - (e - 52))"
    using power_int_diff[of "2::rat" q "e - 52"] by (simp add: m_def)
  also have "\<dots> = rat_of_int n * rat_of_int (2 ^ nat (q + 52 - e))"
    using of_int_pow2[of "q + 52 - e"] e by (simp add: algebra_simps)
  also have "\<dots> = rat_of_int (n * 2 ^ nat (q + 52 - e))" by simp
  finally have quo: "m / 2 powi (e - 52) = rat_of_int (n * 2 ^ nat (q + 52 - e))" .
  have "rat_of_int (round_even (m / 2 powi (e - 52))) * 2 powi (e - 52) = m"
    unfolding quo round_even_of_int unfolding quo[symmetric] by simp
  then have "to_double s m = Finite s m"
    using mpos lt[folded m_def] by (simp add: to_double_def Let_def abs_of_pos e_def)
  then show ?thesis by (simp add: m_def)
qed

lemma to_double_exact_le:
  assumes n: "0 < n" "n \<le> 2 ^ 53" and q: "- 1074 \<le> q"
    and lt: "rat_of_int n * 2 powi q < 2 ^ 1024"
  shows "to_double s (of_int n * 2 powi q) = Finite s (of_int n * 2 powi q)"
proof (cases "n = 2 ^ 53")
  case False
  then show ?thesis using to_double_exact[of n q s] assms by simp
next
  case True
  have eq: "rat_of_int n * 2 powi q = rat_of_int (2 ^ 52) * 2 powi (q + 1)"
    using power_int_add[of "2::rat" q 1] by (simp add: True)
  show ?thesis
    unfolding eq using to_double_exact[of "2 ^ 52" "q + 1" s] lt q unfolding eq by simp
qed

lemma to_double_nat: "n < 2 ^ 53 \<Longrightarrow> to_double s (of_nat n) = Finite s (of_nat n)"
proof (cases "n = 0")
  case True
  then show ?thesis by (simp add: to_double_def)
next
  case False
  assume "n < 2 ^ 53"
  then have "int n < 2 ^ 53" by (metis of_nat_less_iff of_nat_numeral of_nat_power)
  moreover have "rat_of_int (int n) * 2 powi 0 < 2 ^ 1024"
  proof -
    have "rat_of_int (int n) < 2 ^ 53" using \<open>int n < 2 ^ 53\<close>
      by (metis of_int_less_iff of_int_numeral of_int_power)
    also have "\<dots> < 2 ^ 1024" by simp
    finally show ?thesis by simp
  qed
  ultimately show ?thesis
    using to_double_exact[of "int n" 0 s] False by simp
qed

lemma to_double_sign: "to_double s r = Finite s' m \<Longrightarrow> s' = s"
  by (auto simp: to_double_def Let_def split: if_splits)

lemma to_double_repr:
  assumes "to_double s r = Finite s' m"
  shows "m = 0 \<or> (\<exists>n q. 0 < n \<and> n \<le> 2 ^ 53 \<and> - 1074 \<le> q \<and> m = rat_of_int n * 2 powi q
                          \<and> m < 2 ^ 1024)"
proof (cases "\<bar>r\<bar> = 0")
  case True
  then show ?thesis using assms by (simp add: to_double_def)
next
  case False
  define a where "a = \<bar>r\<bar>"
  have apos: "0 < a" using False by (simp add: a_def)
  define e where "e = max (ilog2 a) (- 1022)"
  define u where "u = (2::rat) powi (e - 52)"
  define n where "n = round_even (a / u)"
  have upos: "0 < u" by (simp add: u_def)
  have m: "m = rat_of_int n * u" and lt: "m < 2 ^ 1024"
    using assms False
    unfolding to_double_def Let_def a_def[symmetric] e_def[symmetric] u_def[symmetric] n_def[symmetric]
    by (auto split: if_splits simp: a_def)
  have "a < 2 powi (ilog2 a + 1)" using ilog2_bounds(2)[OF apos] .
  also have "\<dots> \<le> 2 powi (e + 1)"
    by (intro power_int_increasing) (simp_all add: e_def)
  also have "\<dots> = 2 ^ 53 * u"
    using power_int_add[of "2::rat" "e - 52" 53] by (simp add: u_def add.commute mult.commute)
  finally have "a / u < 2 ^ 53" using upos by (simp add: pos_divide_less_eq)
  then have "a / u \<le> rat_of_int (2 ^ 53)" by simp
  then have n_le: "n \<le> 2 ^ 53" unfolding n_def by (rule round_even_le)
  have n_ge: "0 \<le> n" unfolding n_def using apos upos by (intro round_even_nonneg) simp
  show ?thesis
  proof (cases "n = 0")
    case True
    then show ?thesis by (simp add: m)
  next
    case False
    then have "0 < n" using n_ge by simp
    moreover have "- 1074 \<le> e - 52" by (simp add: e_def)
    ultimately show ?thesis using n_le m lt unfolding u_def by blast
  qed
qed

lemma to_double_idem: "to_double s r = Finite s' m \<Longrightarrow> to_double t m = Finite t m"
  using to_double_repr[of s r s' m] to_double_exact_le
  by (auto simp: to_double_def)

lemma to_double_large_int:
  assumes "to_double s r = Finite s' m" "2 ^ 53 \<le> m"
  shows "\<exists>N. 0 \<le> N \<and> m = rat_of_int N"
proof -
  from to_double_repr[OF assms(1)] assms(2)
  obtain n q where nq: "0 < n" "n \<le> 2 ^ 53" "m = rat_of_int n * 2 powi q"
    by auto
  have "0 \<le> q"
  proof (rule ccontr)
    assume "\<not> 0 \<le> q"
    then have "(2::rat) powi q < 2 powi 0" by (intro power_int_strict_increasing) simp_all
    then have "(2::rat) powi q < 1" by simp
    moreover have "rat_of_int n \<le> 2 ^ 53" using nq(2)
      by (metis of_int_le_iff of_int_numeral of_int_power)
    ultimately have "rat_of_int n * 2 powi q < 2 ^ 53 * 1"
      using nq(1) by (intro mult_le_less_imp_less) simp_all
    with assms(2) nq(3) show False by simp
  qed
  then have "m = rat_of_int (n * 2 ^ nat q)"
    using of_int_pow2[of q] nq(3) by simp
  moreover have "0 \<le> n * 2 ^ nat q" using nq(1) by simp
  ultimately show ?thesis by blast
qed

subsection \<open>Digits and the fixed notation\<close>


declare digits.simps [simp del]

lemma digit_cases: "d < 10 \<Longrightarrow> d \<in> {0, 1, 2, 3, 4, 5, 6, 7, 8, 9::nat}"
  by auto

lemma digit_char_is_digit: "d < 10 \<Longrightarrow> is_digit (digit_char d)"
  using digit_cases[of d] by (auto simp: digit_char_def is_digit_def)

lemma digit_val_digit_char: "d < 10 \<Longrightarrow> digit_val (digit_char d) = d"
  using digit_cases[of d] by (auto simp: digit_char_def digit_val_def)

lemma digits_all: "list_all is_digit (digits n)"
proof (induction n rule: digits.induct)
  case (1 n)
  then show ?case
    by (subst digits.simps) (auto simp: digit_char_is_digit)
qed

lemma digits_nonempty: "digits n \<noteq> []"
  by (subst digits.simps) simp

lemma digits_value_snoc: "digits_value (a @ [c]) = 10 * digits_value a + digit_val c"
  by (simp add: digits_value_def)

lemma digits_value_Nil: "digits_value [] = 0"
  by (simp add: digits_value_def)

lemma digits_value_append: "digits_value (a @ b) = digits_value a * 10 ^ length b + digits_value b"
proof (induction b rule: rev_induct)
  case Nil
  then show ?case by (simp add: digits_value_Nil)
next
  case (snoc c b)
  have "digits_value (a @ b @ [c]) = digits_value ((a @ b) @ [c])" by simp
  also have "\<dots> = 10 * digits_value (a @ b) + digit_val c" by (rule digits_value_snoc)
  finally show ?case using snoc by (simp add: digits_value_snoc algebra_simps)
qed

lemma digits_value_digits: "digits_value (digits n) = n"
proof (induction n rule: digits.induct)
  case (1 n)
  show ?case
  proof (cases "n < 10")
    case True
    then show ?thesis
      by (subst digits.simps) (simp add: digits_value_def digit_val_digit_char)
  next
    case False
    with 1 show ?thesis
      by (subst digits.simps) (simp add: digits_value_snoc digit_val_digit_char)
  qed
qed

lemma digits_value_Cons: "digits_value (c # ds) = digit_val c * 10 ^ length ds + digits_value ds"
  using digits_value_append[of "[c]" ds] by (simp add: digits_value_def)

lemma digits_value_zeros: "digits_value (replicate k CHR ''0'' @ ds) = digits_value ds"
proof -
  have "digits_value (replicate k CHR ''0'') = 0"
    by (induction k) (simp_all add: digits_value_Nil digits_value_Cons digit_val_def)
  then show ?thesis by (simp add: digits_value_append)
qed

lemma is_digit_zero: "is_digit CHR ''0''"
  by (simp add: is_digit_def)

lemma not_digit_dot: "\<not> is_digit CHR ''.''"
  by (simp add: is_digit_def)

lemma fixed2_shape:
  "\<exists>a b. fixed2 n = a @ ''.'' @ b \<and> a \<noteq> [] \<and> list_all is_digit a \<and> list_all is_digit b
         \<and> length b = 2 \<and> digits_value a * 100 + digits_value b = n"
proof -
  define ds0 where "ds0 = digits n"
  define ds where "ds = (if length ds0 \<le> 2 then replicate (3 - length ds0) CHR ''0'' @ ds0 else ds0)"
  have "list_all is_digit ds0" by (simp add: ds0_def digits_all)
  then have all: "list_all is_digit ds"
    by (simp add: ds_def list_all_iff is_digit_zero)
  have len: "3 \<le> length ds"
    by (auto simp: ds_def)
  have val: "digits_value ds = n"
    by (simp add: ds_def ds0_def digits_value_zeros digits_value_digits)
  define a b where "a = take (length ds - 2) ds" and "b = drop (length ds - 2) ds"
  have ab: "a @ b = ds" by (simp add: a_def b_def)
  have "fixed2 n = a @ ''.'' @ b"
    by (simp add: fixed2_def Let_def a_def b_def ds_def ds0_def)
  moreover have "a \<noteq> []" using len by (auto simp: a_def)
  moreover have "list_all is_digit a" "list_all is_digit b"
    using all ab by (metis list_all_append)+
  moreover have lb: "length b = 2" using len by (simp add: b_def)
  moreover have "digits_value a * 100 + digits_value b = n"
    using val digits_value_append[of a b] lb by (simp add: ab)
  ultimately show ?thesis by blast
qed

lemma takeWhile_digits: "list_all is_digit a \<Longrightarrow> \<not> is_digit c \<Longrightarrow> takeWhile is_digit (a @ c # r) = a"
  by (induction a) simp_all

lemma dropWhile_digits: "list_all is_digit a \<Longrightarrow> \<not> is_digit c \<Longrightarrow> dropWhile is_digit (a @ c # r) = c # r"
  by (induction a) simp_all

lemma takeWhile_all: "list_all is_digit a \<Longrightarrow> takeWhile is_digit a = a"
  by (induction a) simp_all

lemma dropWhile_all: "list_all is_digit a \<Longrightarrow> dropWhile is_digit a = []"
  by (induction a) simp_all

lemma unsigned_decimal_point:
  assumes "list_all is_digit a" "list_all is_digit b" "a \<noteq> []"
  shows "unsigned_decimal (a @ ''.'' @ b)
         = Some (of_nat (digits_value a) + of_nat (digits_value b) / 10 ^ length b)"
  using assms
  by (simp add: unsigned_decimal_def takeWhile_digits dropWhile_digits not_digit_dot
      takeWhile_all dropWhile_all parse_exponent_def)


lemma digit_not_ws: "is_digit c \<Longrightarrow> \<not> is_ws c"
  by (auto simp: is_digit_def is_ws_def)

lemma trim_id:
  assumes "s \<noteq> []" "\<not> is_ws (hd s)" "\<not> is_ws (last s)"
  shows "trim s = s"
proof -
  have 1: "dropWhile is_ws s = s" using assms(1,2) by (cases s) simp_all
  have "rev s \<noteq> []" "\<not> is_ws (hd (rev s))" using assms(1,3) by (simp_all add: hd_rev)
  then have 2: "dropWhile is_ws (rev s) = rev s" by (cases "rev s") simp_all
  show ?thesis by (simp add: trim_def 1 2)
qed

lemma non_decimal_plain: "list_all plain_char s \<Longrightarrow> non_decimal s = None"
  by (auto simp: non_decimal_def plain_char_def is_digit_def split: list.splits)

lemma digit_plain: "is_digit c \<Longrightarrow> plain_char c"
  by (simp add: plain_char_def)

lemma digits_plain: "list_all is_digit a \<Longrightarrow> list_all plain_char a"
  by (induction a) (simp_all add: digit_plain)

lemma parse_sign_digit: "is_digit c \<Longrightarrow> parse_sign (c # r) = (False, c # r)"
  by (auto simp: is_digit_def)

lemma StringToNumber_point:
  assumes a: "list_all is_digit a" "a \<noteq> []" and b: "list_all is_digit b" "b \<noteq> []"
  shows "StringToNumber ((if sg then ''-'' else []) @ a @ ''.'' @ b)
         = to_double sg (of_nat (digits_value a) + of_nat (digits_value b) / 10 ^ length b)"
proof -
  define u where "u = a @ ''.'' @ b"
  define str where "str = (if sg then ''-'' else []) @ u"
  obtain c a' where ca: "a = c # a'" using a(2) by (cases a) auto
  have c: "is_digit c" using a(1) ca by simp
  have lastb: "is_digit (last b)" using b by (induction b) (auto split: if_splits)
  have "last str = last b" using b(2) by (simp add: str_def u_def)
  then have "\<not> is_ws (last str)" using lastb digit_not_ws by simp
  moreover have "\<not> is_ws (hd str)" using c digit_not_ws[OF c]
    by (simp add: str_def u_def ca is_ws_def)
  moreover have "str \<noteq> []" by (simp add: str_def u_def)
  ultimately have tr: "trim str = str" by (simp add: trim_id)
  have "list_all plain_char u"
    using a(1) b(1) by (simp add: u_def digits_plain plain_char_def)
  then have "list_all plain_char str" by (simp add: str_def plain_char_def)
  then have nd: "non_decimal str = None" by (rule non_decimal_plain)
  have ps: "parse_sign str = (sg, u)"
    using parse_sign_digit[OF c] by (simp add: str_def u_def ca)
  have ninf: "u \<noteq> ''Infinity''" using c by (auto simp: u_def ca is_digit_def)
  have ud: "unsigned_decimal u = Some (of_nat (digits_value a) + of_nat (digits_value b) / 10 ^ length b)"
    unfolding u_def using a b by (intro unsigned_decimal_point) simp_all
  have "StringToNumber str = to_double sg (of_nat (digits_value a) + of_nat (digits_value b) / 10 ^ length b)"
    using \<open>str \<noteq> []\<close> by (simp add: StringToNumber_def tr nd ps ninf ud)
  then show ?thesis by (simp add: str_def u_def)
qed

lemma StringToNumber_fixed2:
  "StringToNumber ((if sg then ''-'' else []) @ fixed2 n) = to_double sg (of_nat n / 100)"
proof -
  obtain a b where ab: "fixed2 n = a @ ''.'' @ b" "a \<noteq> []" "list_all is_digit a"
      "list_all is_digit b" "length b = 2" "digits_value a * 100 + digits_value b = n"
    using fixed2_shape[of n] by blast
  have "b \<noteq> []" using ab(5) by auto
  then have "StringToNumber ((if sg then ''-'' else []) @ fixed2 n)
      = to_double sg (of_nat (digits_value a) + of_nat (digits_value b) / 10 ^ length b)"
    unfolding ab(1) using ab by (intro StringToNumber_point) simp_all
  also have "rat_of_nat (digits_value a) + of_nat (digits_value b) / 10 ^ length b = of_nat n / 100"
    using ab(5,6) by (simp add: field_simps flip: of_nat_mult of_nat_add)
  finally show ?thesis .
qed

lemma toFixed2_small:
  assumes "m < 10 ^ 21"
  shows "StringToNumber (toFixed2 (Finite s m))
         = to_double (s \<and> 0 < m) (of_nat (nat \<lfloor>m * 100 + 1 / 2\<rfloor>) / 100)"
  using assms StringToNumber_fixed2[of "s \<and> 0 < m" "nat \<lfloor>m * 100 + 1 / 2\<rfloor>"]
  by (simp add: toFixed2_def)

subsection \<open>The exponent notation and large numbers\<close>


declare shortest.simps [simp del]

lemma dec_exponent_bounds:
  assumes "0 < m"
  shows "10 powi (dec_exponent m - 1) \<le> m" and "m < 10 powi (dec_exponent m)"
proof -
  obtain a b where q: "quotient_of m = (a, b)" by (cases "quotient_of m")
  have b: "0 < b" using quotient_of_denom_pos[OF q] .
  have m: "m = of_int a / of_int b" using quotient_of_div[OF q] .
  have a: "0 < a" using assms m b by (simp add: zero_less_divide_iff)
  define la lb where "la = floorlog 10 (nat a)" and "lb = floorlog 10 (nat b)"
  have la: "10 ^ (la - 1) \<le> nat a" "nat a < 10 ^ la"
    using floorlog_bounds[of "nat a" 10] a by (auto simp: la_def)
  have lb: "10 ^ (lb - 1) \<le> nat b" "nat b < 10 ^ lb"
    using floorlog_bounds[of "nat b" 10] b by (auto simp: lb_def)
  have pos: "1 \<le> la" "1 \<le> lb"
    using la(2) lb(2) a b by (cases la; cases lb; simp)+
  have ra: "rat_of_int a = of_nat (nat a)" and rb: "rat_of_int b = of_nat (nat b)"
    using a b by simp_all
  have A1: "(10::rat) ^ (la - 1) \<le> rat_of_int a"
    unfolding ra using la(1) by (metis of_nat_le_iff of_nat_numeral of_nat_power)
  have A2: "rat_of_int a < 10 ^ la"
    unfolding ra using la(2) by (metis of_nat_less_iff of_nat_numeral of_nat_power)
  have B1: "(10::rat) ^ (lb - 1) \<le> rat_of_int b"
    unfolding rb using lb(1) by (metis of_nat_le_iff of_nat_numeral of_nat_power)
  have B2: "rat_of_int b < 10 ^ lb"
    unfolding rb using lb(2) by (metis of_nat_less_iff of_nat_numeral of_nat_power)
  define d where "d = int la - int lb"
  have lo: "10 powi (d - 1) < m"
  proof -
    have "(10::rat) ^ (la - 1) / 10 ^ lb < rat_of_int a / rat_of_int b"
      by (rule frac_less2) (use A1 B2 b in simp_all)
    moreover have "d - 1 = int (la - 1) - int lb" using pos by (simp add: d_def)
    then have "(10::rat) powi (d - 1) = 10 ^ (la - 1) / 10 ^ lb"
      using power_int_diff[of "10::rat" "int (la - 1)" "int lb"] by simp
    ultimately show ?thesis by (simp add: m)
  qed
  have hi: "m < 10 powi (d + 1)"
  proof -
    have "rat_of_int a / rat_of_int b < 10 ^ la / 10 ^ (lb - 1)"
      by (rule frac_less) (use A2 B1 a in simp_all)
    moreover have "d + 1 = int la - int (lb - 1)" using pos by (simp add: d_def)
    then have "(10::rat) powi (d + 1) = 10 ^ la / 10 ^ (lb - 1)"
      using power_int_diff[of "10::rat" "int la" "int (lb - 1)"] by simp
    ultimately show ?thesis by (simp add: m)
  qed
  have de: "dec_exponent m = (if 10 powi d \<le> m then d + 1 else d)"
    by (simp add: dec_exponent_def q la_def lb_def d_def Let_def)
  show "10 powi (dec_exponent m - 1) \<le> m" using lo by (simp add: de)
  show "m < 10 powi (dec_exponent m)" using hi by (auto simp: de not_le)
qed

lemma pick_denotes:
  assumes "pick m n k = Some (s, p)" "1 \<le> k"
  shows "denotes m s p"
proof -
  define q where "q = n - int k"
  define sc where "sc = m / 10 powi q"
  define lo where "lo = nat \<lfloor>sc\<rfloor>"
  define t1 where "t1 = (if sc - of_nat lo < 1 / 2 \<or> (sc - of_nat lo = 1 / 2 \<and> even lo)
                         then lo else lo + 1)"
  define t2 where "t2 = (if t1 = lo then lo + 1 else lo)"
  define found where "found = (if denotes m t1 q then Some t1
                               else if denotes m t2 q then Some t2 else None)"
  have pk: "pick m n k = (case found of None \<Rightarrow> None
             | Some s \<Rightarrow> Some (if s = 10 ^ k then (10 ^ (k - 1), q + 1) else (s, q)))"
    unfolding pick_def Let_def found_def t2_def t1_def lo_def sc_def q_def ..
  obtain s0 where f: "found = Some s0"
    and sp': "(s, p) = (if s0 = 10 ^ k then (10 ^ (k - 1), q + 1) else (s0, q))"
    using assms(1) unfolding pk by (cases found) auto
  have s0: "denotes m s0 (n - int k)"
    using f unfolding found_def q_def by (auto split: if_splits)
  have sp: "(s, p) = (if s0 = 10 ^ k then (10 ^ (k - 1), n - int k + 1) else (s0, n - int k))"
    using sp' by (simp add: q_def)
  show ?thesis
  proof (cases "s0 = 10 ^ k")
    case False
    then show ?thesis using s0 sp by simp
  next
    case True
    obtain j where k: "k = Suc j" using assms(2) by (cases k) auto
    have "rat_of_nat (10 ^ (k - 1)) * 10 powi (n - int k + 1) = rat_of_nat s0 * 10 powi (n - int k)"
      using power_int_add_1[of "10::rat" "n - int k"] by (simp add: True k)
    then show ?thesis using s0 sp True by (simp add: denotes_def)
  qed
qed

lemma shortest_denotes:
  assumes "pick m n k0 \<noteq> None" "k \<le> k0" "k0 \<le> 800" "1 \<le> k"
  shows "denotes m (fst (shortest m n k)) (snd (shortest m n k))"
  using assms(2,4)
proof (induction k rule: inc_induct)
  case base
  obtain r where r: "pick m n k0 = Some r" using assms(1) by auto
  then have "shortest m n k0 = r" by (subst shortest.simps) simp
  moreover have "denotes m (fst r) (snd r)" using pick_denotes[of m n k0 "fst r" "snd r"] r base by simp
  ultimately show ?case by simp
next
  case (step j)
  show ?case
  proof (cases "pick m n j")
    case None
    have "j < 800" using step(2) assms(3) by simp
    then have "shortest m n j = shortest m n (Suc j)"
      by (subst shortest.simps) (simp add: None)
    then show ?thesis using step by simp
  next
    case (Some r)
    then have "shortest m n j = r" by (subst shortest.simps) simp
    moreover have "denotes m (fst r) (snd r)"
      using pick_denotes[of m n j "fst r" "snd r"] Some step by simp
    ultimately show ?thesis by simp
  qed
qed

lemma pick_exact:
  assumes "to_double False (of_nat M) = Finite False (of_nat M)"
  shows "pick (of_nat M) (int k) k \<noteq> None"
proof -
  have "denotes (of_nat M) M 0" using assms by (simp add: denotes_def)
  then show ?thesis by (simp add: pick_def Let_def)
qed


lemma plain_not_ws: "plain_char c \<Longrightarrow> \<not> is_ws c"
  by (auto simp: plain_char_def is_digit_def is_ws_def)

lemma trim_plain:
  assumes "list_all plain_char s" "s \<noteq> []"
  shows "trim s = s"
proof -
  have "hd s \<in> set s" "last s \<in> set s" using assms(2) by simp_all
  then have "plain_char (hd s)" "plain_char (last s)"
    using assms(1) by (simp_all add: list_all_iff)
  then show ?thesis using assms(2) by (simp add: trim_id plain_not_ws)
qed

lemma StringToNumber_plain:
  assumes "list_all plain_char u" "u \<noteq> []" "is_digit (hd u)" "unsigned_decimal u = Some v"
  shows "StringToNumber ((if sg then ''-'' else []) @ u) = to_double sg v"
proof -
  define str where "str = (if sg then ''-'' else []) @ u"
  obtain c r where u: "u = c # r" using assms(2) by (cases u) auto
  have c: "is_digit c" using assms(3) u by simp
  have pl: "list_all plain_char str" using assms(1) by (simp add: str_def plain_char_def)
  have ne: "str \<noteq> []" using assms(2) by (simp add: str_def)
  have tr: "trim str = str" using trim_plain[OF pl ne] .
  have nd: "non_decimal str = None" using pl by (rule non_decimal_plain)
  have ps: "parse_sign str = (sg, u)"
    using parse_sign_digit[OF c] by (simp add: str_def u)
  have ninf: "u \<noteq> ''Infinity''" using c by (auto simp: u is_digit_def)
  have "StringToNumber str = to_double sg v"
    using ne by (simp add: StringToNumber_def tr nd ps ninf assms(4))
  then show ?thesis by (simp add: str_def)
qed

lemma unsigned_decimal_digits:
  "list_all is_digit a \<Longrightarrow> a \<noteq> [] \<Longrightarrow> unsigned_decimal a = Some (of_nat (digits_value a))"
  by (simp add: unsigned_decimal_def takeWhile_all dropWhile_all parse_exponent_def digits_value_Nil)

lemma parse_exponent_fmt:
  "parse_exponent (CHR ''e'' # (if e < 0 then ''-'' else ''+'') @ digits (nat \<bar>e\<bar>)) = Some e"
  by (cases "e < 0")
     (simp_all add: parse_exponent_def Let_def digits_all digits_nonempty digits_value_digits)

lemma not_digit_e: "\<not> is_digit CHR ''e''"
  by (simp add: is_digit_def)

lemma unsigned_decimal_exp1:
  assumes "list_all is_digit a" "a \<noteq> []" "parse_exponent (CHR ''e'' # es) = Some e"
  shows "unsigned_decimal (a @ CHR ''e'' # es) = Some (of_nat (digits_value a) * 10 powi e)"
  using assms
  by (simp add: unsigned_decimal_def takeWhile_digits dropWhile_digits not_digit_e digits_value_Nil)

lemma unsigned_decimal_exp2:
  assumes "list_all is_digit a" "a \<noteq> []" "list_all is_digit b"
    "parse_exponent (CHR ''e'' # es) = Some e"
  shows "unsigned_decimal (a @ CHR ''.'' # b @ CHR ''e'' # es)
         = Some ((of_nat (digits_value a) + of_nat (digits_value b) / 10 ^ length b) * 10 powi e)"
  using assms
  by (simp add: unsigned_decimal_def takeWhile_digits dropWhile_digits not_digit_e not_digit_dot)

lemma digits_value_replicate_zero: "digits_value (replicate j CHR ''0'') = 0"
  using digits_value_zeros[of j "[]"] by (simp add: digits_value_Nil)

lemma pow10_neg: "(10::rat) powi (- int j) = 1 / 10 ^ j"
  by (simp add: power_int_minus divide_inverse)

lemma unsigned_decimal_layout:
  assumes ds: "list_all is_digit ds" "ds \<noteq> []"
  shows "unsigned_decimal (layout ds n)
         = Some (of_nat (digits_value ds) * 10 powi (n - int (length ds)))"
proof -
  define k where "k = int (length ds)"
  consider (a) "k \<le> n" "n \<le> 21" | (b) "\<not> (k \<le> n \<and> n \<le> 21)" "0 < n" "n \<le> 21"
    | (c) "\<not> (k \<le> n \<and> n \<le> 21)" "\<not> (0 < n \<and> n \<le> 21)" "- 6 < n" "n \<le> 0"
    | (d) "\<not> (k \<le> n \<and> n \<le> 21)" "\<not> (0 < n \<and> n \<le> 21)" "\<not> (- 6 < n \<and> n \<le> 0)"
    by linarith
  then show ?thesis
  proof cases
    case a
    define j where "j = nat (n - k)"
    have lay: "layout ds n = ds @ replicate j CHR ''0''"
      using a by (simp add: layout_def Let_def k_def j_def)
    have all: "list_all is_digit (ds @ replicate j CHR ''0'')"
      using ds(1) by (auto simp: list_all_iff is_digit_zero)
    have "(10::rat) powi (n - k) = 10 ^ j" using a by (simp add: j_def power_int_def)
    then show ?thesis
      unfolding lay using unsigned_decimal_digits[OF all] ds(2)
      by (simp add: digits_value_append digits_value_replicate_zero k_def)
  next
    case b
    then have nk: "n < k" by simp
    define a' b' where "a' = take (nat n) ds" and "b' = drop (nat n) ds"
    have lay: "layout ds n = a' @ ''.'' @ b'"
      using b by (simp add: layout_def Let_def k_def a'_def b'_def)
    have ab: "a' @ b' = ds" by (simp add: a'_def b'_def)
    have da: "list_all is_digit a'" and db: "list_all is_digit b'"
      using ds(1) ab by (metis list_all_append)+
    have ne: "a' \<noteq> []" using b(2) ds(2) by (simp add: a'_def)
    have lb: "int (length b') = k - n" using nk b(2) by (simp add: b'_def k_def)
    then have "n - k = - int (length b')" by simp
    then have pw: "(10::rat) powi (n - k) = 1 / 10 ^ length b'" by (simp only: pow10_neg)
    have val: "digits_value ds = digits_value a' * 10 ^ length b' + digits_value b'"
      using digits_value_append[of a' b'] by (simp add: ab)
    show ?thesis
      unfolding lay using unsigned_decimal_point[OF da db ne] pw
      by (simp add: val k_def[symmetric] field_simps)
  next
    case c
    define j where "j = nat (- n)"
    define b' where "b' = replicate j CHR ''0'' @ ds"
    have lay: "layout ds n = ''0'' @ ''.'' @ b'"
      using c by (simp add: layout_def Let_def k_def j_def b'_def)
    have db: "list_all is_digit b'" using ds(1) by (auto simp: b'_def list_all_iff is_digit_zero)
    have d0: "list_all is_digit ''0''" by (simp add: is_digit_zero)
    have "n - k = - int (length b')" using c by (simp add: b'_def j_def k_def)
    then have pw: "(10::rat) powi (n - k) = 1 / 10 ^ length b'" by (simp only: pow10_neg)
    have v0: "digits_value ''0'' = 0" by (simp add: digits_value_def digit_val_def)
    have vb: "digits_value b' = digits_value ds" by (simp add: b'_def digits_value_zeros)
    show ?thesis
      unfolding lay using unsigned_decimal_point[OF d0 db] pw
      by (simp add: v0 vb k_def[symmetric])
  next
    case d
    define e where "e = n - 1"
    define es where "es = (if e < 0 then ''-'' else ''+'') @ digits (nat \<bar>e\<bar>)"
    have pe: "parse_exponent (CHR ''e'' # es) = Some e"
      unfolding es_def by (rule parse_exponent_fmt)
    have lay0: "layout ds n = (if k = 1 then ds @ ''e'' @ es else [hd ds] @ ''.'' @ tl ds @ ''e'' @ es)"
      unfolding layout_def Let_def k_def[symmetric] es_def e_def using d by (simp only: if_False)
    show ?thesis
    proof (cases "k = 1")
      case True
      have lay: "layout ds n = ds @ CHR ''e'' # es"
        using True by (simp add: lay0)
      show ?thesis
        unfolding lay using unsigned_decimal_exp1[OF ds pe] True
        by (simp add: e_def k_def[symmetric])
    next
      case False
      obtain c r where cr: "ds = c # r" using ds(2) by (cases ds) auto
      have lay: "layout ds n = [c] @ CHR ''.'' # r @ CHR ''e'' # es"
        using False lay0 by (simp add: cr)
      have dc: "list_all is_digit [c]" and dr: "list_all is_digit r"
        using ds(1) by (simp_all add: cr)
      have "n - k = e - int (length r)" by (simp add: e_def k_def cr)
      then have pw: "(10::rat) powi (n - k) = 10 powi e / 10 ^ length r"
        using power_int_diff[of "10::rat" e "int (length r)"] by simp
      have val: "digits_value ds = digits_value [c] * 10 ^ length r + digits_value r"
        using digits_value_append[of "[c]" r] by (simp add: cr)
      show ?thesis
        unfolding lay using unsigned_decimal_exp2[OF dc _ dr pe] pw
        by (simp add: val k_def[symmetric] field_simps)
    qed
  qed
qed


lemma layout_shape:
  "(\<exists>j. layout ds n = ds @ replicate j CHR ''0'')
   \<or> (0 < n \<and> layout ds n = take (nat n) ds @ ''.'' @ drop (nat n) ds)
   \<or> (\<exists>j. layout ds n = ''0.'' @ replicate j CHR ''0'' @ ds)
   \<or> (\<exists>sg j. layout ds n = ds @ ''e'' @ [sg] @ digits j \<and> plain_char sg)
   \<or> (\<exists>sg j. layout ds n = [hd ds] @ ''.'' @ tl ds @ ''e'' @ [sg] @ digits j \<and> plain_char sg)"
proof -
  define k where "k = int (length ds)"
  consider (a) "k \<le> n \<and> n \<le> 21" | (b) "\<not> (k \<le> n \<and> n \<le> 21)" "0 < n \<and> n \<le> 21"
    | (c) "\<not> (k \<le> n \<and> n \<le> 21)" "\<not> (0 < n \<and> n \<le> 21)" "- 6 < n \<and> n \<le> 0"
    | (d) "\<not> (k \<le> n \<and> n \<le> 21)" "\<not> (0 < n \<and> n \<le> 21)" "\<not> (- 6 < n \<and> n \<le> 0)"
    by linarith
  then show ?thesis
  proof cases
    case a
    have "layout ds n = ds @ replicate (nat (n - k)) CHR ''0''"
      unfolding layout_def Let_def k_def[symmetric] using a by (simp only: if_True simp_thms)
    then show ?thesis by blast
  next
    case b
    have "layout ds n = take (nat n) ds @ ''.'' @ drop (nat n) ds"
      unfolding layout_def Let_def k_def[symmetric] using b by (simp only: if_True if_False simp_thms)
    then show ?thesis using b by blast
  next
    case c
    have "layout ds n = ''0.'' @ replicate (nat (- n)) CHR ''0'' @ ds"
      unfolding layout_def Let_def k_def[symmetric] using c by (simp only: if_True if_False simp_thms)
    then show ?thesis by blast
  next
    case d
    define sg where "sg = (if n - 1 < 0 then CHR ''-'' else CHR ''+'')"
    have sg: "plain_char sg" by (simp add: sg_def plain_char_def)
    have sgs: "(if n - 1 < 0 then ''-'' else ''+'') = [sg]" by (simp add: sg_def)
    have "layout ds n = (if k = 1 then ds @ ''e'' @ [sg] @ digits (nat \<bar>n - 1\<bar>)
                         else [hd ds] @ ''.'' @ tl ds @ ''e'' @ [sg] @ digits (nat \<bar>n - 1\<bar>))"
      unfolding layout_def Let_def k_def[symmetric] sgs using d by (simp only: if_False simp_thms)
    then show ?thesis using sg by (cases "k = 1") auto
  qed
qed

lemma layout_plain:
  assumes "list_all is_digit ds" "ds \<noteq> []"
  shows "list_all plain_char (layout ds n)"
proof -
  have d: "\<forall>c\<in>set ds. plain_char c" using digits_plain[OF assms(1)] by (simp add: list_all_iff)
  have e: "\<forall>c\<in>set (digits j). plain_char c" for j
    using digits_plain[OF digits_all[of j]] by (simp add: list_all_iff)
  have h: "ds \<noteq> [] \<Longrightarrow> plain_char (hd ds)" "\<forall>c\<in>set (tl ds). plain_char c"
    using d by (cases ds; simp)+
  have t: "\<forall>c\<in>set (take j ds). plain_char c" "\<forall>c\<in>set (drop j ds). plain_char c" for j
    using d by (auto dest: in_set_takeD in_set_dropD)
  have c: "plain_char CHR ''.''" "plain_char CHR ''e''" "plain_char CHR ''0''"
    by (simp_all add: plain_char_def is_digit_def)
  from layout_shape[of ds n] show ?thesis
  proof (elim disjE exE conjE)
    fix j assume "layout ds n = ds @ replicate j CHR ''0''"
    then show ?thesis using d c by (auto simp: list_all_iff)
  next
    assume "layout ds n = take (nat n) ds @ ''.'' @ drop (nat n) ds"
    then show ?thesis using t[of "nat n"] c by (auto simp: list_all_iff)
  next
    fix j assume "layout ds n = ''0.'' @ replicate j CHR ''0'' @ ds"
    then show ?thesis using d c by (auto simp: list_all_iff)
  next
    fix sg j assume "layout ds n = ds @ ''e'' @ [sg] @ digits j" "plain_char sg"
    then show ?thesis using d c e[of j] by (auto simp: list_all_iff)
  next
    fix sg j assume l: "layout ds n = [hd ds] @ ''.'' @ tl ds @ ''e'' @ [sg] @ digits j" "plain_char sg"
    obtain a r where "ds = a # r" using assms(2) by (cases ds) auto
    then show ?thesis using l d c e[of j] by (auto simp: list_all_iff)
  qed
qed

lemma layout_hd:
  assumes "list_all is_digit ds" "ds \<noteq> []"
  shows "layout ds n \<noteq> [] \<and> is_digit (hd (layout ds n))"
proof -
  obtain c r where cr: "ds = c # r" using assms(2) by (cases ds) auto
  have c: "is_digit c" using assms(1) cr by simp
  from layout_shape[of ds n] show ?thesis
  proof (elim disjE exE conjE)
    fix j assume "layout ds n = ds @ replicate j CHR ''0''"
    then show ?thesis using c by (simp add: cr)
  next
    assume "0 < n" "layout ds n = take (nat n) ds @ ''.'' @ drop (nat n) ds"
    then show ?thesis using c by (cases "nat n") (simp_all add: cr)
  next
    fix j assume "layout ds n = ''0.'' @ replicate j CHR ''0'' @ ds"
    then show ?thesis by (simp add: is_digit_zero)
  next
    fix sg j assume "layout ds n = ds @ ''e'' @ [sg] @ digits j"
    then show ?thesis using c by (simp add: cr)
  next
    fix sg j assume "layout ds n = [hd ds] @ ''.'' @ tl ds @ ''e'' @ [sg] @ digits j"
    then show ?thesis using c by (simp add: cr)
  qed
qed

lemma StringToNumber_layout:
  assumes "list_all is_digit ds" "ds \<noteq> []"
  shows "StringToNumber ((if sg then ''-'' else []) @ layout ds n)
         = to_double sg (of_nat (digits_value ds) * 10 powi (n - int (length ds)))"
  using StringToNumber_plain[OF layout_plain[OF assms] _ _ unsigned_decimal_layout[OF assms]]
    layout_hd[OF assms]
  by simp

lemma to_double_other_sign:
  "to_double s v = Finite s' m \<Longrightarrow> to_double t v = Finite t m"
  by (auto simp: to_double_def Let_def split: if_splits)

lemma NumberToString_roundtrip_large:
  assumes td: "to_double s r = Finite s' m" and big: "10 ^ 21 \<le> m"
  shows "StringToNumber ((if sg then ''-'' else []) @ NumberToString (Finite False m)) = Finite sg m"
proof -
  have "(2::rat) ^ 53 \<le> 10 ^ 21" by simp
  then have "2 ^ 53 \<le> m" using big by linarith
  from to_double_large_int[OF td this] obtain N where N: "0 \<le> N" "m = rat_of_int N" by blast
  define M where "M = nat N"
  have m: "m = of_nat M" using N by (simp add: M_def)
  have "(0::rat) < 10 ^ 21" by simp
  then have mpos: "0 < m" using big by linarith
  have idem: "to_double False (of_nat M) = Finite False (of_nat M)"
    using to_double_idem[OF td, of False] by (simp add: m)
  have lt: "m < 2 ^ 1024"
    using to_double_repr[OF td] mpos by auto
  define n0 where "n0 = dec_exponent m"
  have b1: "10 powi (n0 - 1) \<le> m" and b2: "m < 10 powi n0"
    using dec_exponent_bounds[OF mpos] by (simp_all add: n0_def)
  have n0_ge: "22 \<le> n0"
  proof (rule ccontr)
    assume "\<not> 22 \<le> n0"
    then have "(10::rat) powi n0 \<le> 10 powi 21" by (intro power_int_increasing) simp_all
    with b2 big show False by simp
  qed
  have n0_le: "n0 \<le> 800"
  proof (rule ccontr)
    assume "\<not> n0 \<le> 800"
    then have "(10::rat) powi 309 \<le> 10 powi (n0 - 1)" by (intro power_int_increasing) simp_all
    moreover have "(2::rat) ^ 1024 \<le> 10 powi 309" by simp
    ultimately show False using b1 lt by linarith
  qed
  define k0 where "k0 = nat n0"
  have k0: "int k0 = n0" "1 \<le> k0" "k0 \<le> 800" using n0_ge n0_le by (simp_all add: k0_def)
  have "pick m n0 k0 \<noteq> None"
    using pick_exact[OF idem, of k0] by (simp add: m k0(1))
  from shortest_denotes[OF this k0(2) k0(3)]
  have den: "denotes m (fst (shortest m n0 1)) (snd (shortest m n0 1))" by simp
  define sd pd where "sd = fst (shortest m n0 1)" and "pd = snd (shortest m n0 1)"
  have nts: "NumberToString (Finite False m) = layout (digits sd) (pd + int (length (digits sd)))"
    using mpos by (simp add: NumberToString_def Let_def n0_def sd_def pd_def)
  have "StringToNumber ((if sg then ''-'' else []) @ NumberToString (Finite False m))
        = to_double sg (of_nat sd * 10 powi pd)"
    unfolding nts using StringToNumber_layout[OF digits_all digits_nonempty, of sg sd]
    by (simp add: digits_value_digits)
  moreover have "to_double False (of_nat sd * 10 powi pd) = Finite False m"
    using den by (simp add: denotes_def sd_def pd_def)
  ultimately show ?thesis using to_double_other_sign[of False _ False m sg] by simp
qed

subsection \<open>Values that are not finite, and some exact values\<close>


lemma to_double_zero: "to_double s 0 = Finite s 0"
  by (simp add: to_double_def)

lemma StringToNumber_NaN: "StringToNumber ''NaN'' = NaN"
  by (simp add: StringToNumber_def trim_def is_ws_def non_decimal_def unsigned_decimal_def is_digit_def)

lemma StringToNumber_Infinity: "StringToNumber ''Infinity'' = Infinity False"
  by (simp add: StringToNumber_def trim_def is_ws_def non_decimal_def)

lemma StringToNumber_neg_Infinity: "StringToNumber ''-Infinity'' = Infinity True"
  by (simp add: StringToNumber_def trim_def is_ws_def non_decimal_def)

lemma percent_NaN: "StringToNumber (toFixed2 NaN) = NaN"
  by (simp add: toFixed2_def NumberToString_def StringToNumber_NaN)

lemma percent_Infinity: "StringToNumber (toFixed2 (Infinity s)) = Infinity s"
  by (cases s) (simp_all add: toFixed2_def NumberToString_def StringToNumber_Infinity StringToNumber_neg_Infinity)

lemma to_double_numeral:
  "(numeral k :: nat) < 2 ^ 53 \<Longrightarrow> to_double s (numeral k) = Finite s (numeral k)"
  using to_double_nat[of "numeral k" s] by simp

lemma to_double_half: "to_double s (1 / 2) = Finite s (1 / 2)"
  using to_double_exact[of 1 "- 1" s] by simp


lemma jdiv_NaN_right: "jdiv m NaN = NaN"
  by (cases m) auto

lemma jdiv_by_zero_or_NaN:
  assumes "t = NaN \<or> (\<exists>s. t = Finite s 0)"
  shows "jdiv m t = NaN \<or> (\<exists>u. jdiv m t = Infinity u)"
  using assms
proof
  assume "t = NaN"
  then show ?thesis by (simp add: jdiv_NaN_right)
next
  assume "\<exists>s. t = Finite s 0"
  then obtain s where "t = Finite s 0" ..
  then show ?thesis by (cases m) simp_all
qed

lemma jmul_nonfinite:
  "x = NaN \<or> (\<exists>u. x = Infinity u) \<Longrightarrow>
   jmul x (Finite False 100) = NaN \<or> (\<exists>u. jmul x (Finite False 100) = Infinity u)"
  by auto

lemma percent_nonfinite:
  assumes "t = NaN \<or> (\<exists>s. t = Finite s 0)"
  shows "StringToNumber (toFixed2 (jmul (jdiv m t) (Finite False 100))) = NaN
         \<or> (\<exists>u. StringToNumber (toFixed2 (jmul (jdiv m t) (Finite False 100))) = Infinity u)"
  using jmul_nonfinite[OF jdiv_by_zero_or_NaN[OF assms, of m]]
  by (auto simp: percent_NaN percent_Infinity)

lemma resolved_zero_or_missing:
  assumes "v1 = JUndefined \<or> (\<exists>s. ToNumber v1 = Finite s 0)"
    and "v2 = JUndefined \<or> (\<exists>s. ToNumber v2 = Finite s 0)"
    and "v3 = JUndefined \<or> (\<exists>s. ToNumber v3 = Finite s 0)"
  shows "ToNumber (jor (jor v1 v2) v3) = NaN \<or> (\<exists>s. ToNumber (jor (jor v1 v2) v3) = Finite s 0)"
  using assms by (auto simp: jor_def)

text \<open>
  How the three spellings are resolved: a truthy value is found under each of them, and a
  falsy one (other than \<^verbatim>\<open>undefined\<close> itself) only under the last.
\<close>

lemma spelling_resolution:
  "truthy v \<Longrightarrow> jor (jor v JUndefined) JUndefined = v"
  "truthy v \<Longrightarrow> jor (jor JUndefined v) JUndefined = v"
  "jor (jor JUndefined JUndefined) v = v"
  "\<not> truthy v \<Longrightarrow> jor (jor v JUndefined) JUndefined = JUndefined"
  "\<not> truthy v \<Longrightarrow> jor (jor JUndefined v) JUndefined = JUndefined"
  by (simp_all add: jor_def)


subsection \<open>The percentage is the rounded ratio\<close>


lemma SameValueZero_refl: "SameValueZero x x"
  by (cases x) simp_all

lemma to_double_not_NaN: "to_double s r \<noteq> NaN"
  by (simp add: to_double_def Let_def)

lemma to_double_nonneg:
  assumes "to_double s r = Finite s' m"
  shows "0 \<le> m"
proof -
  from to_double_repr[OF assms] show ?thesis
  proof
    assume "m = 0" then show ?thesis by simp
  next
    assume "\<exists>n q. 0 < n \<and> n \<le> 2 ^ 53 \<and> - 1074 \<le> q \<and> m = rat_of_int n * 2 powi q \<and> m < 2 ^ 1024"
    then obtain n q where "0 < n" "m = rat_of_int n * 2 powi q" by blast
    then show ?thesis by simp
  qed
qed

lemma toFixed2_finite:
  assumes td: "to_double s r = Finite s' m"
  shows "SameValueZero (StringToNumber (toFixed2 (Finite s' m))) (round_2dp_spec (Finite s' m))"
    and "Finite s' m \<noteq> Finite True 0
         \<Longrightarrow> StringToNumber (toFixed2 (Finite s' m)) = round_2dp_spec (Finite s' m)"
proof -
  have m0: "0 \<le> m" using to_double_nonneg[OF td] .
  have both: "SameValueZero (StringToNumber (toFixed2 (Finite s' m))) (round_2dp_spec (Finite s' m))
        \<and> (Finite s' m \<noteq> Finite True 0
            \<longrightarrow> StringToNumber (toFixed2 (Finite s' m)) = round_2dp_spec (Finite s' m))"
  proof (cases "m < 10 ^ 21")
    case True
    have fl: "0 \<le> \<lfloor>m * 100 + 1 / 2\<rfloor>" using m0 by simp
    have code: "StringToNumber (toFixed2 (Finite s' m))
                = to_double (s' \<and> 0 < m) (of_int \<lfloor>m * 100 + 1 / 2\<rfloor> / 100)"
      using toFixed2_small[OF True, of s'] fl by simp
    show ?thesis
    proof (cases "m = 0")
      case False
      then have "0 < m" using m0 by simp
      then show ?thesis by (simp add: code round_2dp_spec_def SameValueZero_refl)
    next
      case z: True
      have f0: "\<lfloor>(1::rat) / 2\<rfloor> = 0" by (rule floor_unique) simp_all
      have "StringToNumber (toFixed2 (Finite s' 0)) = Finite False 0"
        using code by (simp add: z f0 to_double_zero)
      moreover have "round_2dp_spec (Finite s' 0) = Finite s' 0"
        by (simp add: round_2dp_spec_def f0 to_double_zero)
      ultimately show ?thesis by (auto simp: z)
    qed
  next
    case False
    then have big: "10 ^ 21 \<le> m" by simp
    have "(0::rat) < 10 ^ 21" by simp
    then have mpos: "0 < m" using big by linarith
    have "(2::rat) ^ 53 \<le> 10 ^ 21" by simp
    then have "2 ^ 53 \<le> m" using big by linarith
    from to_double_large_int[OF td this] obtain N where N: "m = rat_of_int N" by blast
    have code: "StringToNumber (toFixed2 (Finite s' m)) = Finite s' m"
      using NumberToString_roundtrip_large[OF td big, of s'] big mpos by (simp add: toFixed2_def)
    have "rat_of_int \<lfloor>m * 100 + 1 / 2\<rfloor> / 100 = m"
    proof -
      have "\<lfloor>m * 100 + 1 / 2\<rfloor> = N * 100"
        by (rule floor_unique) (simp_all add: N)
      then show ?thesis by (simp add: N)
    qed
    then have "round_2dp_spec (Finite s' m) = Finite s' m"
      using to_double_idem[OF td, of s'] by (simp add: round_2dp_spec_def)
    then show ?thesis by (simp add: code SameValueZero_refl)
  qed
  show "SameValueZero (StringToNumber (toFixed2 (Finite s' m))) (round_2dp_spec (Finite s' m))"
    using both by simp
  show "Finite s' m \<noteq> Finite True 0
        \<Longrightarrow> StringToNumber (toFixed2 (Finite s' m)) = round_2dp_spec (Finite s' m)"
    using both by simp
qed

lemma jmul_100_form:
  "jmul x (Finite False 100) = NaN \<or> (\<exists>s. jmul x (Finite False 100) = Infinity s)
   \<or> (\<exists>s r. jmul x (Finite False 100) = to_double s r)"
  by (cases x) auto

lemma percent_rounded:
  fixes x :: jsnum
  defines "p \<equiv> jmul x (Finite False 100)"
  shows "SameValueZero (StringToNumber (toFixed2 p)) (round_2dp_spec p)"
    and "p \<noteq> Finite True 0 \<Longrightarrow> StringToNumber (toFixed2 p) = round_2dp_spec p"
proof -
  have "SameValueZero (StringToNumber (toFixed2 p)) (round_2dp_spec p)
        \<and> (p \<noteq> Finite True 0 \<longrightarrow> StringToNumber (toFixed2 p) = round_2dp_spec p)"
  proof (cases p)
    case NaN
    then show ?thesis by (simp add: percent_NaN round_2dp_spec_def)
  next
    case (Infinity s)
    then show ?thesis by (simp add: percent_Infinity round_2dp_spec_def)
  next
    case (Finite s' m)
    then obtain s r where "to_double s r = Finite s' m"
      using jmul_100_form[of x] by (auto simp: p_def)
    from toFixed2_finite[OF this] show ?thesis by (simp add: Finite)
  qed
  then show "SameValueZero (StringToNumber (toFixed2 p)) (round_2dp_spec p)"
    and "p \<noteq> Finite True 0 \<Longrightarrow> StringToNumber (toFixed2 p) = round_2dp_spec p"
    by simp_all
qed

lemma percent_positive_sign:
  assumes "0 < t"
  shows "jmul (jdiv (Finite False a) (Finite False t)) (Finite False 100) \<noteq> Finite True 0"
proof -
  have "jdiv (Finite False a) (Finite False t) = to_double False (a / t)" using assms by simp
  then show ?thesis
    by (cases "to_double False (a / t)") (auto dest: to_double_sign simp: to_double_not_NaN)
qed

section \<open>The normalizer: parse failures, missing and zero values, key spellings\<close>

text \<open>
  C8. \<^verbatim>\<open>processExcelFile\<close> and \<^verbatim>\<open>processCSVFile\<close> throw exactly when the parse of the
  buffer throws, and the error they throw carries the fixed message of the file type, whatever
  the rows are. When the parse gives rows, the result has one record for each row.
\<close>

theorem processing_error_iff_parse_fails:
  "(processExcelFile L buf = Inl ''Failed to process Excel file'' \<longleftrightarrow> xlsx_rows L buf = None)
   \<and> (\<forall>e. processExcelFile L buf = Inl e \<longrightarrow> e = ''Failed to process Excel file'')
   \<and> (\<forall>data. xlsx_rows L buf = Some data \<longrightarrow> processExcelFile L buf = Inr (map excel_row data))
   \<and> (processCSVFile L buf = Inl ''Failed to process CSV file''
        \<longleftrightarrow> Papa_parse L (buffer_toString L buf) = None)
   \<and> (\<forall>e. processCSVFile L buf = Inl e \<longrightarrow> e = ''Failed to process CSV file'')
   \<and> (\<forall>data. Papa_parse L (buffer_toString L buf) = Some data
        \<longrightarrow> processCSVFile L buf = Inr (map csv_row data))"
  by (auto simp: processExcelFile_def processCSVFile_def split: option.splits)

theorem processing_error_iff_parse_fails_witness:
  "processExcelFile failing_libs [] = Inl ''Failed to process Excel file''
   \<and> processCSVFile failing_libs [] = Inl ''Failed to process CSV file''
   \<and> processExcelFile sample_libs [] = Inr (map excel_row sample_rows)
   \<and> processCSVFile sample_libs [] = Inr (map csv_row sample_rows)"
proof -
  have 1: "xlsx_rows failing_libs [] = None"
    and 2: "Papa_parse failing_libs (buffer_toString failing_libs []) = None"
    by (simp_all add: failing_libs_def)
  have 3: "xlsx_rows sample_libs [] = Some sample_rows"
    and 4: "Papa_parse sample_libs (buffer_toString sample_libs []) = Some sample_rows"
    by (simp_all add: sample_libs_def)
  show ?thesis
    using processing_error_iff_parse_fails[of failing_libs "[]"]
      processing_error_iff_parse_fails[of sample_libs "[]"] 1 2 3 4
    by blast
qed


text \<open>
  C5. The three spellings of a column are not interchangeable: a value that is falsy (a
  zero, an empty text) counts as missing under the first two spellings and is taken as it
  is under the last one. A spreadsheet row with the mark 0 under \<^verbatim>\<open>Marks Obtained\<close> gives
  the record with mark 0 and percentage 0; the same row with the mark under
  \<^verbatim>\<open>Marks_Obtained\<close> gives a record whose mark and percentage are \<open>NaN\<close>. An empty
  identifier cell under \<^verbatim>\<open>Student ID\<close> gives the empty text, under \<^verbatim>\<open>Student_ID\<close> the
  text \<^verbatim>\<open>undefined\<close>.
\<close>

theorem spelling_variants_differ_on_zero:
  "excel_row [(''Student_ID'', JStr ''S1''), (''Student_Name'', JStr ''Alice''),
              (''Total_Marks'', JNum (Finite False 100)), (''Marks Obtained'', JNum (Finite False 0))]
   = \<lparr> student_id = ''S1'', student_name = ''Alice'', total_marks = Finite False 100,
       marks_obtained = Finite False 0, percentage = Finite False 0 \<rparr>
   \<and> excel_row [(''Student_ID'', JStr ''S1''), (''Student_Name'', JStr ''Alice''),
                (''Total_Marks'', JNum (Finite False 100)), (''Marks_Obtained'', JNum (Finite False 0))]
   = \<lparr> student_id = ''S1'', student_name = ''Alice'', total_marks = Finite False 100,
       marks_obtained = NaN, percentage = NaN \<rparr>
   \<and> student_id (csv_row [(''Student ID'', JStr [])]) = []
   \<and> student_id (csv_row [(''Student_ID'', JStr [])]) = ''undefined''"
  by (simp add: excel_row_def csv_row_def get_prop_def jor_def Let_def to_double_zero toFixed2_small percent_NaN)



text \<open>
  C9. A row whose total is zero or missing (the number made of it is a zero or \<open>NaN\<close>;
  it is \<open>NaN\<close> when the row has none of the three keys) is not rejected: its record
  has a percentage that is \<open>NaN\<close> or an infinity.
\<close>

theorem zero_or_missing_total_gives_nonfinite_percentage:
  "(total_marks (excel_row row) = NaN \<or> (\<exists>s. total_marks (excel_row row) = Finite s 0)
      \<longrightarrow> percentage (excel_row row) = NaN \<or> (\<exists>u. percentage (excel_row row) = Infinity u))
   \<and> (total_marks (csv_row row) = NaN \<or> (\<exists>s. total_marks (csv_row row) = Finite s 0)
      \<longrightarrow> percentage (csv_row row) = NaN \<or> (\<exists>u. percentage (csv_row row) = Infinity u))
   \<and> (map_of row ''Total_Marks'' = None \<and> map_of row ''total_marks'' = None
        \<and> map_of row ''Total Marks'' = None
      \<longrightarrow> total_marks (excel_row row) = NaN \<and> total_marks (csv_row row) = NaN)
   \<and> ((get_prop row ''Total_Marks'' = JUndefined
          \<or> (\<exists>s. ToNumber (get_prop row ''Total_Marks'') = Finite s 0))
        \<and> (get_prop row ''total_marks'' = JUndefined
          \<or> (\<exists>s. ToNumber (get_prop row ''total_marks'') = Finite s 0))
        \<and> (get_prop row ''Total Marks'' = JUndefined
          \<or> (\<exists>s. ToNumber (get_prop row ''Total Marks'') = Finite s 0))
      \<longrightarrow> (total_marks (excel_row row) = NaN \<or> (\<exists>s. total_marks (excel_row row) = Finite s 0))
        \<and> (total_marks (csv_row row) = NaN \<or> (\<exists>s. total_marks (csv_row row) = Finite s 0)))
   \<and> (xlsx_rows L buf = Some rows \<longrightarrow> processExcelFile L buf = Inr (map excel_row rows))
   \<and> (Papa_parse L (buffer_toString L buf) = Some rows
      \<longrightarrow> processCSVFile L buf = Inr (map csv_row rows))"
proof -
  have 1: "percentage (excel_row row) = NaN \<or> (\<exists>u. percentage (excel_row row) = Infinity u)"
    if "total_marks (excel_row row) = NaN \<or> (\<exists>s. total_marks (excel_row row) = Finite s 0)"
    using that percent_nonfinite by (simp add: excel_row_def Let_def)
  have 2: "percentage (csv_row row) = NaN \<or> (\<exists>u. percentage (csv_row row) = Infinity u)"
    if "total_marks (csv_row row) = NaN \<or> (\<exists>s. total_marks (csv_row row) = Finite s 0)"
    using that percent_nonfinite by (simp add: csv_row_def Let_def)
  have 3: "total_marks (excel_row row) = NaN \<and> total_marks (csv_row row) = NaN"
    if "map_of row ''Total_Marks'' = None \<and> map_of row ''total_marks'' = None
        \<and> map_of row ''Total Marks'' = None"
    using that by (simp add: excel_row_def csv_row_def get_prop_def jor_def Let_def)
  have 4: "(total_marks (excel_row row) = NaN \<or> (\<exists>s. total_marks (excel_row row) = Finite s 0))
        \<and> (total_marks (csv_row row) = NaN \<or> (\<exists>s. total_marks (csv_row row) = Finite s 0))"
    if "(get_prop row ''Total_Marks'' = JUndefined
          \<or> (\<exists>s. ToNumber (get_prop row ''Total_Marks'') = Finite s 0))
        \<and> (get_prop row ''total_marks'' = JUndefined
          \<or> (\<exists>s. ToNumber (get_prop row ''total_marks'') = Finite s 0))
        \<and> (get_prop row ''Total Marks'' = JUndefined
          \<or> (\<exists>s. ToNumber (get_prop row ''Total Marks'') = Finite s 0))"
    using resolved_zero_or_missing[of "get_prop row ''Total_Marks''" "get_prop row ''total_marks''"
        "get_prop row ''Total Marks''"] that
    by (simp add: excel_row_def csv_row_def Let_def)
  have 5: "processExcelFile L buf = Inr (map excel_row rows)" if "xlsx_rows L buf = Some rows"
    using that by (simp add: processExcelFile_def)
  have 6: "processCSVFile L buf = Inr (map csv_row rows)"
    if "Papa_parse L (buffer_toString L buf) = Some rows"
    using that by (simp add: processCSVFile_def)
  show ?thesis using 1 2 3 4 5 6 by blast
qed

theorem zero_or_missing_total_gives_nonfinite_percentage_witness:
  "percentage (excel_row [(''Student_ID'', JStr ''S1''), (''Total Marks'', JNum (Finite False 0)),
                          (''Marks_Obtained'', JNum (Finite False 40))]) = Infinity False
   \<and> percentage (csv_row [(''Student_ID'', JStr ''S1''), (''Marks_Obtained'', JStr ''40'')]) = NaN"
proof -
  let ?r1 = "[(''Student_ID'', JStr ''S1''), (''Total Marks'', JNum (Finite False 0)),
              (''Marks_Obtained'', JNum (Finite False 40))]"
  let ?r2 = "[(''Student_ID'', JStr ''S1''), (''Marks_Obtained'', JStr ''40'')]"
  have t1: "total_marks (excel_row ?r1) = Finite False 0"
    by (simp add: excel_row_def get_prop_def jor_def Let_def)
  have t2: "map_of ?r2 ''Total_Marks'' = None \<and> map_of ?r2 ''total_marks'' = None
            \<and> map_of ?r2 ''Total Marks'' = None"
    by simp
  have m1: "marks_obtained (excel_row ?r1) = Finite False 40"
    by (simp add: excel_row_def get_prop_def jor_def Let_def)
  have p1: "percentage (excel_row ?r1) \<noteq> NaN"
    by (simp add: excel_row_def get_prop_def jor_def Let_def percent_Infinity)
  have s1: "percentage (excel_row ?r1) = Infinity u \<Longrightarrow> u = False" for u
    by (simp add: excel_row_def get_prop_def jor_def Let_def percent_Infinity)
  have p2: "percentage (csv_row ?r2) = Infinity u \<Longrightarrow> False" for u
    by (simp add: csv_row_def get_prop_def jor_def Let_def percent_NaN jdiv_NaN_right)
  from zero_or_missing_total_gives_nonfinite_percentage[of ?r1] t1 p1 s1
  have a: "percentage (excel_row ?r1) = Infinity False" by blast
  from zero_or_missing_total_gives_nonfinite_percentage[of ?r2] t2 p2
  have b: "percentage (csv_row ?r2) = NaN" by blast
  show ?thesis using a b by blast
qed


text \<open>
  C10, as the claim states it, fails: a row whose only identifier key is \<^verbatim>\<open>Student ID\<close>,
  with an empty cell, has no truthy value under any spelling, and its identifier is the
  empty text.
\<close>

theorem empty_last_spelling_counterexample:
  "\<not> truthy (get_prop [(''Student ID'', JStr [])] ''Student_ID'')
   \<and> \<not> truthy (get_prop [(''Student ID'', JStr [])] ''student_id'')
   \<and> \<not> truthy (get_prop [(''Student ID'', JStr [])] ''Student ID'')
   \<and> student_id (csv_row [(''Student ID'', JStr [])]) \<noteq> ''undefined''"
  by (simp add: csv_row_def get_prop_def jor_def Let_def)


text \<open>
  C10, amended. For a row in which \<^verbatim>\<open>Student_ID\<close> and \<^verbatim>\<open>student_id\<close> hold no truthy
  value and \<^verbatim>\<open>Student ID\<close> is absent, the identifier of the record is the text
  \<^verbatim>\<open>undefined\<close>, so two such rows get the same identifier; likewise for the name. The
  normalizer does not fail on such rows.
\<close>

theorem missing_identifier_is_undefined:
  "(\<not> truthy (get_prop row ''Student_ID'') \<and> \<not> truthy (get_prop row ''student_id'')
      \<and> get_prop row ''Student ID'' = JUndefined
     \<longrightarrow> student_id (excel_row row) = ''undefined'' \<and> student_id (csv_row row) = ''undefined'')
   \<and> (\<not> truthy (get_prop row ''Student_Name'') \<and> \<not> truthy (get_prop row ''student_name'')
      \<and> get_prop row ''Student Name'' = JUndefined
     \<longrightarrow> student_name (excel_row row) = ''undefined'' \<and> student_name (csv_row row) = ''undefined'')
   \<and> (xlsx_rows L buf = Some rows \<longrightarrow> processExcelFile L buf = Inr (map excel_row rows))
   \<and> (Papa_parse L (buffer_toString L buf) = Some rows
      \<longrightarrow> processCSVFile L buf = Inr (map csv_row rows))"
  by (simp add: excel_row_def csv_row_def jor_def Let_def processExcelFile_def processCSVFile_def)

theorem missing_identifier_is_undefined_witness:
  "student_id (csv_row [(''Student_ID'', JStr []), (''Student_Name'', JStr ''Alice'')]) = ''undefined''
   \<and> student_id (csv_row [(''Student_Name'', JStr ''Bob'')]) = ''undefined''
   \<and> student_name (excel_row [(''student_name'', JNum (Finite False 0))]) = ''undefined''"
proof -
  let ?r1 = "[(''Student_ID'', JStr []), (''Student_Name'', JStr ''Alice'')]"
  let ?r2 = "[(''Student_Name'', JStr ''Bob'')]"
  let ?r3 = "[(''student_name'', JNum (Finite False 0))]"
  have h1: "\<not> truthy (get_prop ?r1 ''Student_ID'') \<and> \<not> truthy (get_prop ?r1 ''student_id'')
            \<and> get_prop ?r1 ''Student ID'' = JUndefined"
    by (simp add: get_prop_def)
  have h2: "\<not> truthy (get_prop ?r2 ''Student_ID'') \<and> \<not> truthy (get_prop ?r2 ''student_id'')
            \<and> get_prop ?r2 ''Student ID'' = JUndefined"
    by (simp add: get_prop_def)
  have h3: "\<not> truthy (get_prop ?r3 ''Student_Name'') \<and> \<not> truthy (get_prop ?r3 ''student_name'')
            \<and> get_prop ?r3 ''Student Name'' = JUndefined"
    by (simp add: get_prop_def)
  show ?thesis
    using missing_identifier_is_undefined[of ?r1] missing_identifier_is_undefined[of ?r2]
      missing_identifier_is_undefined[of ?r3] h1 h2 h3
    by blast
qed

section \<open>The upload and the stores\<close>

subsection \<open>Facts about the handlers\<close>


lemma allowed_dispatch:
  "str_includes ''application/vnd.openxmlformats-officedocument.spreadsheetml.sheet'' ''sheet''"
  "str_includes ''application/vnd.ms-excel'' ''excel''"
  "str_includes ''text/csv'' ''csv''"
  "\<not> str_includes ''text/csv'' ''sheet''"
  "\<not> str_includes ''text/csv'' ''excel''"
  by simp_all

lemma rejected_type_general:
  "mimetype f \<notin> set allowedTypes \<Longrightarrow>
   post_upload L E d (Some f)
   = (error_middleware ''Invalid file type. Only Excel and CSV files allowed.'', d)"
  by (simp add: post_upload_def upload_single_def fileFilter_def)

lemma insert_ordered_None:
  "insert_ordered flt i ds store = (None, store') \<Longrightarrow> store' = store @ ds"
proof (induction ds arbitrary: i store)
  case Nil
  then show ?case by simp
next
  case (Cons a ds)
  from Cons.prems have "insert_ordered flt (Suc i) ds (store @ [a]) = (None, store')"
    by (auto split: option.splits if_splits)
  from Cons.IH[OF this] show ?case by simp
qed

lemma insertMany_None:
  "Student_insertMany E ss d = (None, d') \<Longrightarrow>
   d' = d\<lparr>students := students d @ map (\<lambda>(i, s). new_doc E i s) (enumerate 0 ss)\<rparr>"
  unfolding Student_insertMany_def Let_def
  by (metis insert_ordered_None prod.collapse prod.inject)

lemma replace_and_record_200:
  assumes "replace_and_record E d f r = Returned resp d'"
  shows "\<exists>studentsData. r = Inr studentsData
          \<and> resp = \<lparr> status = 200, body = UploadBody ''File uploaded successfully''
                                          (length studentsData) studentsData \<rparr>
          \<and> students d' = map (\<lambda>(i, s). new_doc E i s) (enumerate 0 studentsData)
          \<and> history d' = history d @ [history_of E f (length studentsData) ''success'']"
  using assms
  by (auto simp: replace_and_record_def Student_deleteMany_def UploadHistory_create_def
      split: sum.splits if_splits option.splits prod.splits dest!: insertMany_None)

lemma replace_and_record_Thrown:
  assumes "replace_and_record E d f r = Thrown e d'"
  shows "history d' = history d"
  using assms
  by (auto simp: replace_and_record_def Student_deleteMany_def UploadHistory_create_def
      Student_insertMany_def Let_def
      split: sum.splits if_splits option.splits prod.splits)


lemma accepted_file:
  assumes "upload_single (Some f) = Inr fo"
  shows "fo = Some f \<and> mimetype f \<in> set allowedTypes"
  using assms by (auto simp: upload_single_def fileFilter_def split: if_splits option.splits)

lemma allowed_is_dispatched:
  assumes "mimetype f \<in> set allowedTypes"
  shows "str_includes (mimetype f) ''sheet'' \<or> str_includes (mimetype f) ''excel''
         \<or> str_includes (mimetype f) ''csv''"
  using assms allowed_dispatch by (auto simp: allowedTypes_def)

lemma upload_try_accepted:
  assumes "mimetype f \<in> set allowedTypes"
  shows "\<exists>r. (r = processExcelFile L (buffer f) \<or> r = processCSVFile L (buffer f))
             \<and> upload_try L E d f = replace_and_record E d f r"
  using allowed_is_dispatched[OF assms] by (auto simp: upload_try_def)

lemma get_students_ok:
  assumes "readyState E' = 1" "find_fault E' = None"
  shows "get_students E' d
         = \<lparr> status = 200, body = StudentsBody (sort_key (\<lambda>x. - int (created_at x)) (students d)) \<rparr>"
  using assms by (simp add: get_students_def Student_find_sorted_def)

lemmas upload_eval =
  post_upload_def upload_single_def fileFilter_def allowedTypes_def upload_handler_def
  upload_try_def replace_and_record_def processExcelFile_def processCSVFile_def
  Student_deleteMany_def Student_insertMany_def UploadHistory_create_def fault_at_def
  new_doc_def student_fields_def get_prop_def excel_row_def csv_row_def jor_def Let_def
  sample_libs_def sample_env_def sample_db_def sample_xlsx_def sample_csv_def sample_rows_def
  offline_env_def empty_db_def enumerate_eq_zip

lemma sample_upload_status:
  "status (fst (post_upload sample_libs sample_env sample_db (Some sample_xlsx))) = 200"
  by (simp add: upload_eval)

lemma sample_oid_digits: "list_all is_digit (sample_oid i)"
  using digits_all[of i] by (auto simp: sample_oid_def list_all_iff is_digit_zero)

lemma sample_oid_fresh: "sample_oid i \<notin> doc_id ` set (students sample_db)"
proof
  assume "sample_oid i \<in> doc_id ` set (students sample_db)"
  then have "sample_oid i = ''65f000000000000000000001''" by (simp add: sample_db_def)
  with sample_oid_digits[of i] show False by (simp add: is_digit_def)
qed

lemma replace_and_record_catch_indep:
  "replace_and_record (E\<lparr>create_fault_in_catch := x\<rparr>) d f r = replace_and_record E d f r"
proof -
  have a: "Student_deleteMany (E\<lparr>create_fault_in_catch := x\<rparr>) = Student_deleteMany E"
    by (simp add: fun_eq_iff Student_deleteMany_def)
  have b: "Student_insertMany (E\<lparr>create_fault_in_catch := x\<rparr>) = Student_insertMany E"
    by (simp add: fun_eq_iff Student_insertMany_def new_doc_def)
  have c: "history_of (E\<lparr>create_fault_in_catch := x\<rparr>) = history_of E"
    by (simp add: fun_eq_iff history_of_def)
  have d: "create_fault (E\<lparr>create_fault_in_catch := x\<rparr>) = create_fault E"
    "readyState (E\<lparr>create_fault_in_catch := x\<rparr>) = readyState E"
    by simp_all
  show ?thesis unfolding replace_and_record_def a b c d ..
qed

lemma find_missing: "ident \<notin> doc_id ` set (students d) \<Longrightarrow> find (\<lambda>x. doc_id x = ident) (students d) = None"
  by (auto simp: find_None_iff)

lemma sample_id_valid: "isValidObjectId ''65f000000000000000000002''"
  by (simp add: isValidObjectId_def hex_val_def is_digit_def digit_val_def)

lemma second_file_missing_id_200:
  assumes "ident \<notin> doc_id ` set (students d)" "isValidObjectId ident"
    "findByIdAndUpdate_fault E = None" "findByIdAndDelete_fault E = None"
  shows "put_student_2 E d ident req_body = (\<lparr> status = 200, body = StudentBody None \<rparr>, d)"
    and "delete_student_2 E d ident
         = (\<lparr> status = 200, body = MessageBody ''Student deleted successfully'' \<rparr>, d)"
  using find_missing[OF assms(1)] assms(2-)
  by (simp_all add: put_student_2_def delete_student_2_def Student_findByIdAndUpdate_def
      Student_findByIdAndDelete_def Let_def)

subsection \<open>The claims about the upload\<close>

text \<open>
  C6. A file whose media type is not one of the three accepted ones is stopped by the file
  filter, and the error goes to the error handling middleware, which answers 500 with
  \<^verbatim>\<open>Internal server error\<close>: not a response of the 400 class. Nothing is written.
\<close>

theorem invalid_media_type_answers_500:
  "post_upload L E d (Some sample_pdf)
   = (\<lparr> status = 500,
        body = ErrorBody ''Internal server error''
                 (Some ''Invalid file type. Only Excel and CSV files allowed.'') \<rparr>, d)"
  by (simp add: post_upload_def upload_single_def fileFilter_def allowedTypes_def
      error_middleware_def sample_pdf_def)


text \<open>
  C2. When an upload answers 200, the request had a file, the normalizer gave the records
  in the response, and the student store then holds exactly the documents made of these
  records, one for each, in their order. None of the documents stored before is among them
  (the identifiers of new documents being fresh), and a listing of this store gives these
  documents and no other.
\<close>

theorem upload_replaces_students:
  assumes "post_upload L E d fo = (r, d')" and "status r = 200"
  shows "\<exists>f studentsData.
           fo = Some f
         \<and> (processExcelFile L (buffer f) = Inr studentsData
              \<or> processCSVFile L (buffer f) = Inr studentsData)
         \<and> body r = UploadBody ''File uploaded successfully'' (length studentsData) studentsData
         \<and> students d' = map (\<lambda>(i, s). new_doc E i s) (enumerate 0 studentsData)
         \<and> length (students d') = length studentsData
         \<and> ((\<forall>i. new_id E i \<notin> doc_id ` set (students d))
               \<longrightarrow> set (students d') \<inter> set (students d) = {})
         \<and> (\<forall>E'. readyState E' = 1 \<and> find_fault E' = None \<longrightarrow>
               (\<exists>docs. get_students E' d' = \<lparr> status = 200, body = StudentsBody docs \<rparr>
                     \<and> mset docs = mset (students d')
                     \<and> length docs = length studentsData))"
proof -
  obtain fo' where single: "upload_single fo = Inr fo'"
    using assms by (cases "upload_single fo") (auto simp: post_upload_def error_middleware_def)
  then have h: "upload_handler L E d fo' = (r, d')"
    using assms(1) by (simp add: post_upload_def)
  obtain f where fo': "fo' = Some f"
    using h assms(2) by (cases fo') (auto simp: upload_handler_def)
  have fo: "fo = Some f" and allowed: "mimetype f \<in> set allowedTypes"
    using single fo' accepted_file by (cases fo; auto simp: upload_single_def)+
  obtain res where res: "res = processExcelFile L (buffer f) \<or> res = processCSVFile L (buffer f)"
      and tr: "upload_try L E d f = replace_and_record E d f res"
    using upload_try_accepted[OF allowed] by blast
  have ret: "replace_and_record E d f res = Returned r d'"
    using h assms(2)
    by (cases "replace_and_record E d f res") (auto simp: fo' upload_handler_def tr)
  from replace_and_record_200[OF ret]
  obtain studentsData where sd: "res = Inr studentsData"
      "r = \<lparr> status = 200, body = UploadBody ''File uploaded successfully''
                                   (length studentsData) studentsData \<rparr>"
      "students d' = map (\<lambda>(i, s). new_doc E i s) (enumerate 0 studentsData)"
    by blast
  have len: "length (students d') = length studentsData"
    by (simp add: sd(3))
  have ids: "doc_id x \<in> range (new_id E)" if "x \<in> set (students d')" for x
    using that by (auto simp: sd(3) new_doc_def)
  have fresh: "set (students d') \<inter> set (students d) = {}"
    if "\<forall>i. new_id E i \<notin> doc_id ` set (students d)"
  proof -
    have "x \<notin> set (students d)" if x: "x \<in> set (students d')" for x
    proof
      assume "x \<in> set (students d)"
      then have "doc_id x \<in> doc_id ` set (students d)" by simp
      moreover obtain i where "doc_id x = new_id E i" using ids[OF x] by auto
      ultimately show False using \<open>\<forall>i. new_id E i \<notin> doc_id ` set (students d)\<close> by simp
    qed
    then show ?thesis by auto
  qed
  have listing: "\<exists>docs. get_students E' d' = \<lparr> status = 200, body = StudentsBody docs \<rparr>
                     \<and> mset docs = mset (students d') \<and> length docs = length studentsData"
    if "readyState E' = 1 \<and> find_fault E' = None" for E'
    using that get_students_ok[of E' d'] len by simp
  show ?thesis
    using fo res sd(1) sd(2) sd(3) len fresh listing by (intro exI[of _ f] exI[of _ studentsData]) auto
qed


theorem upload_replaces_students_witness:
  "status (fst (post_upload sample_libs sample_env sample_db (Some sample_xlsx))) = 200
   \<and> length (students (snd (post_upload sample_libs sample_env sample_db (Some sample_xlsx)))) = 2
   \<and> set (students (snd (post_upload sample_libs sample_env sample_db (Some sample_xlsx))))
        \<inter> set (students sample_db) = {}"
proof -
  let ?p = "post_upload sample_libs sample_env sample_db (Some sample_xlsx)"
  have eq: "?p = (fst ?p, snd ?p)" by simp
  have fresh: "\<forall>i. new_id sample_env i \<notin> doc_id ` set (students sample_db)"
    using sample_oid_fresh by (simp add: sample_env_def)
  from upload_replaces_students[OF eq sample_upload_status]
  obtain f studentsData where f: "Some sample_xlsx = Some f"
    and sd: "processExcelFile sample_libs (buffer f) = Inr studentsData
             \<or> processCSVFile sample_libs (buffer f) = Inr studentsData"
    and len: "length (students (snd ?p)) = length studentsData"
    and disj: "(\<forall>i. new_id sample_env i \<notin> doc_id ` set (students sample_db))
               \<longrightarrow> set (students (snd ?p)) \<inter> set (students sample_db) = {}"
    by blast
  have "length studentsData = 2"
    using sd by (auto simp: processExcelFile_def processCSVFile_def sample_libs_def sample_rows_def)
  then show ?thesis using sample_upload_status len disj fresh by simp
qed


text \<open>
  C4, as the claim states it, fails: with no connection to the database, an upload with an
  accepted file answers 500 and appends no history entry, since the write of the entry in
  the \<^verbatim>\<open>catch\<close> block is rejected too and that error is dropped.
\<close>

theorem upload_without_history_counterexample:
  "upload_single (Some sample_csv) = Inr (Some sample_csv)
   \<and> status (fst (post_upload sample_libs offline_env empty_db (Some sample_csv))) = 500
   \<and> history (snd (post_upload sample_libs offline_env empty_db (Some sample_csv)))
       = history empty_db"
  by (simp add: upload_eval)


text \<open>
  C4, amended. For an upload whose file passed the middleware: when the answer is 200, one
  entry is appended, with status \<^verbatim>\<open>success\<close> and the number of records; otherwise the
  answer is 500, and one entry with status \<^verbatim>\<open>error\<close> and count 0 is appended when the
  write of that entry succeeds and none when it is rejected. Whether that write in the
  \<^verbatim>\<open>catch\<close> block is rejected does not change the response.
\<close>

theorem upload_history_entries:
  assumes "upload_single (Some f) = Inr (Some f)" and "post_upload L E d (Some f) = (r, d')"
  shows "(status r = 200 \<longrightarrow>
            (\<exists>recs. body r = UploadBody ''File uploaded successfully'' (length recs) recs
                   \<and> history d' = history d @ [history_of E f (length recs) ''success'']))
       \<and> (status r \<noteq> 200 \<longrightarrow>
            status r = 500
          \<and> history d' = (if create_fault_in_catch E = None
                          then history d @ [history_of E f 0 ''error''] else history d))
       \<and> (\<forall>x. fst (post_upload L (E\<lparr>create_fault_in_catch := x\<rparr>) d (Some f)) = r)"
proof -
  have allowed: "mimetype f \<in> set allowedTypes"
    using accepted_file[OF assms(1)] by simp
  obtain res where tr: "upload_try L E d f = replace_and_record E d f res"
    using upload_try_accepted[OF allowed] by blast
  have tr': "upload_try L (E\<lparr>create_fault_in_catch := x\<rparr>) d f = replace_and_record E d f res" for x
    using tr allowed_is_dispatched[OF allowed]
    by (auto simp: upload_try_def replace_and_record_catch_indep split: if_splits)
  have h: "upload_handler L E d (Some f) = (r, d')"
    using assms by (simp add: post_upload_def)
  have h': "post_upload L (E\<lparr>create_fault_in_catch := x\<rparr>) d (Some f)
            = upload_handler L (E\<lparr>create_fault_in_catch := x\<rparr>) d (Some f)" for x
    using assms(1) by (simp add: post_upload_def)
  show ?thesis
  proof (cases "replace_and_record E d f res")
    case (Returned resp d2)
    from replace_and_record_200[OF Returned]
    obtain recs where recs: "resp = \<lparr> status = 200, body = UploadBody ''File uploaded successfully''
                                                        (length recs) recs \<rparr>"
        "history d2 = history d @ [history_of E f (length recs) ''success'']"
      by blast
    have "r = resp" "d' = d2" using h Returned by (simp_all add: upload_handler_def tr)
    moreover have "fst (post_upload L (E\<lparr>create_fault_in_catch := x\<rparr>) d (Some f)) = resp" for x
      by (simp add: h' upload_handler_def tr' Returned)
    ultimately show ?thesis using recs by auto
  next
    case (Thrown e d2)
    have hist: "history d2 = history d" using replace_and_record_Thrown[OF Thrown] .
    have r: "r = \<lparr> status = 500, body = ErrorBody ''Failed to process file'' (Some e) \<rparr>"
      using h Thrown by (simp add: upload_handler_def tr)
    have d': "history d' = (if create_fault_in_catch E = None
                            then history d @ [history_of E f 0 ''error''] else history d)"
      using h Thrown hist
      by (auto simp: upload_handler_def tr UploadHistory_create_def split: option.splits)
    have "fst (post_upload L (E\<lparr>create_fault_in_catch := x\<rparr>) d (Some f)) = r" for x
      by (simp add: h' upload_handler_def tr' Thrown r)
    then show ?thesis using r d' by simp
  qed
qed

theorem upload_history_entries_witness:
  "history (snd (post_upload sample_libs sample_env sample_db (Some sample_xlsx)))
     = [history_of sample_env sample_xlsx 2 ''success'']
   \<and> history (snd (post_upload failing_libs sample_env sample_db (Some sample_csv)))
     = [history_of sample_env sample_csv 0 ''error'']"
proof -
  let ?p = "post_upload sample_libs sample_env sample_db (Some sample_xlsx)"
  let ?q = "post_upload failing_libs sample_env sample_db (Some sample_csv)"
  have a1: "upload_single (Some sample_xlsx) = Inr (Some sample_xlsx)"
    and a2: "upload_single (Some sample_csv) = Inr (Some sample_csv)"
    by (simp_all add: upload_eval)
  have p: "?p = (fst ?p, snd ?p)" and q: "?q = (fst ?q, snd ?q)" by simp_all
  have bp: "body (fst ?p) = UploadBody m n recs \<Longrightarrow> length recs = 2" for m n recs
    by (auto simp: upload_eval)
  have sq: "status (fst ?q) \<noteq> 200"
    by (simp add: upload_eval failing_libs_def)
  have h0: "history sample_db = []" "create_fault_in_catch sample_env = None"
    by (simp_all add: sample_db_def sample_env_def)
  from upload_history_entries[OF a1 p] sample_upload_status
  obtain recs where "body (fst ?p) = UploadBody ''File uploaded successfully'' (length recs) recs"
    "history (snd ?p) = history sample_db @ [history_of sample_env sample_xlsx (length recs) ''success'']"
    by blast
  then have 1: "history (snd ?p) = [history_of sample_env sample_xlsx 2 ''success'']"
    using bp h0 by simp
  from upload_history_entries[OF a2 q] sq h0
  have 2: "history (snd ?q) = [history_of sample_env sample_csv 0 ''error'']" by simp
  show ?thesis using 1 2 by simp
qed



text \<open>
  C7, as the claim states it, fails: an identifier that is not 24 hexadecimal digits belongs
  to no record, and the store call rejects it, so that both handlers answer 500.
\<close>

theorem malformed_id_counterexample:
  "''abc'' \<notin> doc_id ` set (students sample_db)
   \<and> status (fst (put_student sample_env sample_db ''abc''
                    [(''total_marks'', JNum (Finite False 50)),
                     (''marks_obtained'', JNum (Finite False 25))])) = 500
   \<and> status (fst (delete_student sample_env sample_db ''abc'')) = 500"
  by (simp add: put_student_def delete_student_def Student_findByIdAndUpdate_def
      Student_findByIdAndDelete_def Let_def isValidObjectId_def sample_db_def)


text \<open>
  C7, amended. Where no record has the identifier, the update and deletion handlers of
  server.js leave the store as it is; they answer 404 when the identifier is well formed and
  the store call is not rejected, and 500 otherwise.
\<close>

theorem missing_id_not_found_or_rejected:
  assumes "ident \<notin> doc_id ` set (students d)"
  shows "snd (put_student E d ident req_body) = d
       \<and> status (fst (put_student E d ident req_body))
           = (if isValidObjectId ident \<and> findByIdAndUpdate_fault E = None then 404 else 500)
       \<and> snd (delete_student E d ident) = d
       \<and> status (fst (delete_student E d ident))
           = (if isValidObjectId ident \<and> findByIdAndDelete_fault E = None then 404 else 500)"
  using find_missing[OF assms]
  by (auto simp: put_student_def delete_student_def Student_findByIdAndUpdate_def
      Student_findByIdAndDelete_def Let_def split: option.splits)

theorem missing_id_not_found_or_rejected_witness:
  "put_student sample_env sample_db ''65f000000000000000000002'' []
     = (\<lparr> status = 404, body = ErrorBody ''Student not found'' None \<rparr>, sample_db)
   \<and> delete_student sample_env sample_db ''65f000000000000000000002''
     = (\<lparr> status = 404, body = ErrorBody ''Student not found'' None \<rparr>, sample_db)"
proof -
  let ?i = "''65f000000000000000000002''"
  have miss: "?i \<notin> doc_id ` set (students sample_db)"
    by (simp add: sample_db_def)
  have ok: "isValidObjectId ?i \<and> findByIdAndUpdate_fault sample_env = None"
    "isValidObjectId ?i \<and> findByIdAndDelete_fault sample_env = None"
    using sample_id_valid by (simp_all add: sample_env_def)
  have bodies: "status (fst (put_student sample_env sample_db ?i [])) = 404
        \<Longrightarrow> body (fst (put_student sample_env sample_db ?i [])) = ErrorBody ''Student not found'' None"
    "status (fst (delete_student sample_env sample_db ?i)) = 404
        \<Longrightarrow> body (fst (delete_student sample_env sample_db ?i)) = ErrorBody ''Student not found'' None"
    by (auto simp: put_student_def delete_student_def Let_def split: sum.splits option.splits prod.splits)
  from missing_id_not_found_or_rejected[OF miss, of sample_env "[]"] ok
  have s: "snd (put_student sample_env sample_db ?i []) = sample_db"
     "status (fst (put_student sample_env sample_db ?i [])) = 404"
     "snd (delete_student sample_env sample_db ?i) = sample_db"
     "status (fst (delete_student sample_env sample_db ?i)) = 404"
    by simp_all
  show ?thesis
    using s bodies by (auto simp: prod_eq_iff response.equality)
qed


section \<open>The percentage\<close>


lemma round_2dp_spec_50: "round_2dp_spec (Finite False 50) = Finite False 50"
proof -
  have "\<lfloor>(50::rat) * 100 + 1 / 2\<rfloor> = 5000" by (rule floor_unique) simp_all
  then show ?thesis by (simp add: round_2dp_spec_def to_double_numeral)
qed

lemma ratio_50_100:
  "jmul (jdiv (Finite False 50) (Finite False 100)) (Finite False 100) = Finite False 50"
  by (simp add: to_double_half to_double_numeral)


text \<open>
  C1. For a row whose total is a positive number, in the spreadsheet path and in the CSV
  path, the percentage of the record is the quotient of the record's marks by its total,
  times 100, rounded to two decimal places: it is the same number as \<open>round_2dp_spec\<close> of
  that product (the product is computed in binary64, as the code does), equal to it unless
  the product is the negative zero, and so equal to it for every mark that is not negative.
\<close>

theorem percentage_is_rounded_ratio:
  "(total_marks (excel_row row) = Finite False t \<and> 0 < t \<longrightarrow>
      SameValueZero (percentage (excel_row row))
        (round_2dp_spec (jmul (jdiv (marks_obtained (excel_row row)) (total_marks (excel_row row)))
                              (Finite False 100)))
    \<and> (jmul (jdiv (marks_obtained (excel_row row)) (total_marks (excel_row row))) (Finite False 100)
          \<noteq> Finite True 0
        \<longrightarrow> percentage (excel_row row)
            = round_2dp_spec (jmul (jdiv (marks_obtained (excel_row row)) (total_marks (excel_row row)))
                                   (Finite False 100)))
    \<and> (\<forall>a. marks_obtained (excel_row row) = Finite False a
        \<longrightarrow> percentage (excel_row row)
            = round_2dp_spec (jmul (jdiv (Finite False a) (Finite False t)) (Finite False 100))))
   \<and> (total_marks (csv_row row) = Finite False t \<and> 0 < t \<longrightarrow>
      SameValueZero (percentage (csv_row row))
        (round_2dp_spec (jmul (jdiv (marks_obtained (csv_row row)) (total_marks (csv_row row)))
                              (Finite False 100)))
    \<and> (jmul (jdiv (marks_obtained (csv_row row)) (total_marks (csv_row row))) (Finite False 100)
          \<noteq> Finite True 0
        \<longrightarrow> percentage (csv_row row)
            = round_2dp_spec (jmul (jdiv (marks_obtained (csv_row row)) (total_marks (csv_row row)))
                                   (Finite False 100)))
    \<and> (\<forall>a. marks_obtained (csv_row row) = Finite False a
        \<longrightarrow> percentage (csv_row row)
            = round_2dp_spec (jmul (jdiv (Finite False a) (Finite False t)) (Finite False 100))))"
proof -
  have e: "percentage (excel_row row)
           = StringToNumber (toFixed2 (jmul (jdiv (marks_obtained (excel_row row))
                                                  (total_marks (excel_row row))) (Finite False 100)))"
    by (simp add: excel_row_def Let_def)
  have c: "percentage (csv_row row)
           = StringToNumber (toFixed2 (jmul (jdiv (marks_obtained (csv_row row))
                                                  (total_marks (csv_row row))) (Finite False 100)))"
    by (simp add: csv_row_def Let_def)
  show ?thesis
    unfolding e c
    using percent_rounded[of "jdiv (marks_obtained (excel_row row)) (total_marks (excel_row row))"]
      percent_rounded[of "jdiv (marks_obtained (csv_row row)) (total_marks (csv_row row))"]
      percent_positive_sign[of t]
    by (metis (no_types, lifting))
qed

theorem percentage_is_rounded_ratio_witness:
  "percentage (excel_row [(''Student_ID'', JStr ''S1''), (''Student_Name'', JStr ''Alice''),
                          (''Total_Marks'', JNum (Finite False 100)),
                          (''Marks_Obtained'', JNum (Finite False 50))]) = Finite False 50
   \<and> percentage (csv_row [(''Student_ID'', JStr ''S1''), (''Student_Name'', JStr ''Alice''),
                          (''Total_Marks'', JNum (Finite False 100)),
                          (''Marks_Obtained'', JNum (Finite False 50))]) = Finite False 50"
proof -
  let ?row = "[(''Student_ID'', JStr ''S1''), (''Student_Name'', JStr ''Alice''),
               (''Total_Marks'', JNum (Finite False 100)),
               (''Marks_Obtained'', JNum (Finite False 50))]"
  have t: "total_marks (excel_row ?row) = Finite False 100 \<and> (0::rat) < 100"
    "total_marks (csv_row ?row) = Finite False 100 \<and> (0::rat) < 100"
    by (simp_all add: excel_row_def csv_row_def get_prop_def jor_def Let_def)
  have m: "marks_obtained (excel_row ?row) = Finite False 50"
    "marks_obtained (csv_row ?row) = Finite False 50"
    by (simp_all add: excel_row_def csv_row_def get_prop_def jor_def Let_def)
  have r: "round_2dp_spec (jmul (jdiv (Finite False 50) (Finite False 100)) (Finite False 100))
           = Finite False 50"
    by (simp only: ratio_50_100 round_2dp_spec_50)
  from percentage_is_rounded_ratio[of ?row 100] t m r
  show ?thesis by metis
qed

subsection \<open>A computation with an inexact quotient\<close>


lemma StringToNumber_digits:
  assumes "list_all is_digit a" "a \<noteq> []"
  shows "StringToNumber a = to_double False (of_nat (digits_value a))"
proof -
  have "is_digit (hd a)" using assms by (cases a) simp_all
  from StringToNumber_plain[OF digits_plain[OF assms(1)] assms(2) this
      unsigned_decimal_digits[OF assms], of False]
  show ?thesis by simp
qed

lemma to_double_four_fifths:
  "to_double False (4 / 5) = Finite False (7205759403792794 / 9007199254740992)"
proof -
  have il: "ilog2 (4 / 5) = - 1"
    by (rule ilog2_unique) simp_all
  have fl: "\<lfloor>(36028797018963968::rat) / 5\<rfloor> = 7205759403792793"
    by (rule floor_unique) simp_all
  have re: "round_even (36028797018963968 / 5) = 7205759403792794"
    by (simp add: round_even_def Let_def fl)
  show ?thesis
    by (simp add: to_double_def Let_def il re)
qed

lemma to_double_eighty:
  "to_double False (90071992547409925 / 1125899906842624) = Finite False 80"
proof -
  have il: "ilog2 (90071992547409925 / 1125899906842624) = 6"
    by (rule ilog2_unique) simp_all
  have fl: "\<lfloor>(90071992547409925::rat) / 16\<rfloor> = 5629499534213120"
    by (rule floor_unique) simp_all
  have re: "round_even (90071992547409925 / 16) = 5629499534213120"
    by (simp add: round_even_def Let_def fl)
  show ?thesis
    by (simp add: to_double_def Let_def il re)
qed

text \<open>
  The example of the specification: the CSV rows \<^verbatim>\<open>S1,Alice,100,80\<close> and \<^verbatim>\<open>S2,Bob,50,40\<close>
  both get the percentage 80. The quotient 0.8 is not a binary64 number; the product of its
  nearest one with 100 rounds to 80.
\<close>

lemma spec_example:
  "map csv_row [[(''Student_ID'', JStr ''S1''), (''Student_Name'', JStr ''Alice''),
                 (''Total_Marks'', JStr ''100''), (''Marks_Obtained'', JStr ''80'')],
                [(''Student_ID'', JStr ''S2''), (''Student_Name'', JStr ''Bob''),
                 (''Total_Marks'', JStr ''50''), (''Marks_Obtained'', JStr ''40'')]]
   = [\<lparr> student_id = ''S1'', student_name = ''Alice'', total_marks = Finite False 100,
         marks_obtained = Finite False 80, percentage = Finite False 80 \<rparr>,
      \<lparr> student_id = ''S2'', student_name = ''Bob'', total_marks = Finite False 50,
         marks_obtained = Finite False 40, percentage = Finite False 80 \<rparr>]"
proof -
  have n: "StringToNumber ''100'' = Finite False 100" "StringToNumber ''80'' = Finite False 80"
    "StringToNumber ''50'' = Finite False 50" "StringToNumber ''40'' = Finite False 40"
    by (simp_all add: StringToNumber_digits is_digit_def digits_value_def digit_val_def
        to_double_numeral)
  have f: "\<lfloor>(16001::rat) / 2\<rfloor> = 8000" by (rule floor_unique) simp_all
  have p: "StringToNumber (toFixed2 (Finite False 80)) = Finite False 80"
    by (simp add: toFixed2_small f to_double_numeral)
  show ?thesis
    by (simp add: csv_row_def get_prop_def jor_def Let_def n to_double_four_fifths
        to_double_eighty p)
qed

subsection \<open>The update\<close>


lemma map_of_set_field_same:
  "map_of (set_field k v ob) k = Some v"
proof (cases "k \<in> set (map fst ob)")
  case True
  have "k \<in> set (map fst xs) \<Longrightarrow>
        map_of (map (\<lambda>(k', v'). if k' = k then (k', v) else (k', v')) xs) k = Some v" for xs
    by (induction xs) (auto split: prod.splits)
  then show ?thesis using True by (simp add: set_field_def)
next
  case False
  then have "map_of ob k = None" by (simp add: map_of_eq_None_iff)
  then show ?thesis using False by (simp add: set_field_def map_add_def)
qed

lemma map_of_set_field_other:
  assumes "k' \<noteq> k"
  shows "map_of (set_field k v ob) k' = map_of ob k'"
proof -
  have "map_of (map (\<lambda>(a, b). if a = k then (a, v) else (a, b)) xs) k' = map_of xs k'" for xs
    using assms by (induction xs) (auto split: prod.splits)
  then show ?thesis using assms by (simp add: set_field_def map_add_def split: option.splits)
qed

lemma get_prop_set_field_same: "get_prop (set_field k v ob) k = v"
  by (simp add: get_prop_def map_of_set_field_same)

lemma get_prop_set_field_other: "k' \<noteq> k \<Longrightarrow> get_prop (set_field k v ob) k' = get_prop ob k'"
  by (simp add: get_prop_def map_of_set_field_other)

lemma set_field_twice: "set_field k v (set_field k w ob) = set_field k v ob"
proof (cases "k \<in> set (map fst ob)")
  case True
  have keys: "map fst (map (\<lambda>(a, b). if a = k then (a, w) else (a, b)) ob) = map fst ob"
    by (induction ob) (auto split: prod.splits)
  have "map (\<lambda>(a, b). if a = k then (a, v) else (a, b))
          (map (\<lambda>(a, b). if a = k then (a, w) else (a, b)) ob)
        = map (\<lambda>(a, b). if a = k then (a, v) else (a, b)) ob"
    by (induction ob) (auto split: prod.splits)
  then show ?thesis using True keys by (simp add: set_field_def)
next
  case False
  have "map (\<lambda>(a, b). if a = k then (a, v) else (a, b)) ob = ob"
    using False by (induction ob) (auto split: prod.splits)
  then show ?thesis using False by (simp add: set_field_def)
qed

lemma set_field_entries:
  "k \<in> fst ` set (set_field k v ob)"
  "(a, b) \<in> set (set_field k v ob) \<Longrightarrow> a = k \<Longrightarrow> b = v"
  by (auto simp: set_field_def image_iff split: if_splits prod.splits)

lemma merge_fields_value:
  assumes "\<And>a b. (a, b) \<in> set upd \<Longrightarrow> a = k \<Longrightarrow> b = v"
    and "k \<in> fst ` set upd \<or> get_prop ob k = v"
  shows "get_prop (merge_fields ob upd) k = v"
  using assms
proof (induction upd arbitrary: ob)
  case Nil
  then show ?case by (simp add: merge_fields_def)
next
  case (Cons e upd)
  obtain a b where e: "e = (a, b)" by (cases e)
  have step: "merge_fields ob (e # upd) = merge_fields (set_field a b ob) upd"
    by (simp add: merge_fields_def e)
  have "k \<in> fst ` set upd \<or> get_prop (set_field a b ob) k = v"
  proof (cases "a = k")
    case True
    then have "b = v" using Cons.prems(1)[of a b] by (simp add: e)
    then show ?thesis using True by (simp add: get_prop_set_field_same)
  next
    case False
    then show ?thesis using Cons.prems(2) by (auto simp: e get_prop_set_field_other)
  qed
  then show ?case
    unfolding step using Cons.prems(1) by (intro Cons.IH) auto
qed

lemma merged_percentage:
  "get_prop (merge_fields ob (set_field ''percentage'' v req_body)) ''percentage'' = v"
  using set_field_entries[where k = "''percentage''" and v = v and ob = req_body]
  by (intro merge_fields_value) auto

lemma update_store:
  assumes "Student_findByIdAndUpdate E ident upd d = Inr (res, d')"
  shows "(res = None \<and> d' = d)
         \<or> (\<exists>x x'. res = Some x' \<and> x \<in> set (students d) \<and> doc_id x = ident
                \<and> x' = x\<lparr>doc_fields := merge_fields (doc_fields x) upd\<rparr>
                \<and> students d' = map (\<lambda>y. if doc_id y = ident then x' else y) (students d))"
proof (cases "find (\<lambda>x. doc_id x = ident) (students d)")
  case None
  then show ?thesis using assms
    by (auto simp: Student_findByIdAndUpdate_def split: if_splits option.splits)
next
  case (Some x)
  then have "x \<in> set (students d)" "doc_id x = ident"
    by (auto simp: find_Some_iff)
  then show ?thesis using assms Some
    by (auto simp: Student_findByIdAndUpdate_def Let_def split: if_splits option.splits)
qed


text \<open>
  C3. The percentage that an update stores is computed from the submitted marks and total: it
  is the rounded quotient (the same number as \<open>round_2dp_spec\<close> gives). When the update
  answers 200 the record of that identifier holds this percentage; whatever the answer, every
  record of the store is as it was or holds this percentage; and the response and the store
  do not depend on a \<open>percentage\<close> field of the request body. The handler of the
  second server file leaves the same store. An update of an existing record that the store
  accepts answers 200.
\<close>

theorem update_recomputes_percentage:
  assumes "put_student E d ident req_body = (r, d')"
  shows "SameValueZero
           (StringToNumber (toFixed2 (jmul (jdiv (ToNumber (get_prop req_body ''marks_obtained''))
                                                 (ToNumber (get_prop req_body ''total_marks'')))
                                           (Finite False 100))))
           (round_2dp_spec (jmul (jdiv (ToNumber (get_prop req_body ''marks_obtained''))
                                       (ToNumber (get_prop req_body ''total_marks'')))
                                 (Finite False 100)))
       \<and> (jmul (jdiv (ToNumber (get_prop req_body ''marks_obtained''))
                    (ToNumber (get_prop req_body ''total_marks''))) (Finite False 100)
            \<noteq> Finite True 0
          \<longrightarrow> StringToNumber (toFixed2 (jmul (jdiv (ToNumber (get_prop req_body ''marks_obtained''))
                                                   (ToNumber (get_prop req_body ''total_marks'')))
                                             (Finite False 100)))
              = round_2dp_spec (jmul (jdiv (ToNumber (get_prop req_body ''marks_obtained''))
                                           (ToNumber (get_prop req_body ''total_marks'')))
                                     (Finite False 100)))
       \<and> (status r = 200 \<longrightarrow>
            (\<exists>x. body r = StudentBody (Some x) \<and> doc_id x = ident \<and> x \<in> set (students d')
               \<and> get_prop (doc_fields x) ''percentage''
                   = JNum (StringToNumber
                            (toFixed2 (jmul (jdiv (ToNumber (get_prop req_body ''marks_obtained''))
                                                  (ToNumber (get_prop req_body ''total_marks'')))
                                            (Finite False 100))))))
       \<and> (\<forall>x\<in>set (students d').
             x \<in> set (students d)
           \<or> get_prop (doc_fields x) ''percentage''
               = JNum (StringToNumber
                        (toFixed2 (jmul (jdiv (ToNumber (get_prop req_body ''marks_obtained''))
                                              (ToNumber (get_prop req_body ''total_marks'')))
                                        (Finite False 100)))))
       \<and> (\<forall>v. put_student E d ident (set_field ''percentage'' v req_body) = (r, d'))
       \<and> snd (put_student_2 E d ident req_body) = d'
       \<and> (isValidObjectId ident \<and> findByIdAndUpdate_fault E = None
            \<and> ident \<in> doc_id ` set (students d) \<longrightarrow> status r = 200)"
proof -
  define pct where "pct = StringToNumber (toFixed2 (jmul (jdiv (ToNumber (get_prop req_body ''marks_obtained''))
                                                 (ToNumber (get_prop req_body ''total_marks'')))
                                           (Finite False 100)))"
  define upd where "upd = set_field ''percentage'' (JNum pct) req_body"
  have put: "put_student E d ident req_body
      = (case Student_findByIdAndUpdate E ident upd d of
           Inl e \<Rightarrow> (\<lparr> status = 500, body = ErrorBody ''Failed to update student'' (Some e) \<rparr>, d)
         | Inr (None, d') \<Rightarrow> (\<lparr> status = 404, body = ErrorBody ''Student not found'' None \<rparr>, d')
         | Inr (Some student, d') \<Rightarrow> (\<lparr> status = 200, body = StudentBody (Some student) \<rparr>, d'))"
    by (simp add: put_student_def Let_def upd_def pct_def)
  have put2: "put_student_2 E d ident req_body
      = (case Student_findByIdAndUpdate E ident upd d of
           Inl e \<Rightarrow> (\<lparr> status = 500, body = ErrorBody ''Failed to update student'' None \<rparr>, d)
         | Inr (student, d') \<Rightarrow> (\<lparr> status = 200, body = StudentBody student \<rparr>, d'))"
    by (simp add: put_student_2_def Let_def upd_def pct_def)
  have indep: "put_student E d ident (set_field ''percentage'' v req_body)
               = put_student E d ident req_body" for v
    by (simp add: put_student_def Let_def get_prop_set_field_other set_field_twice)
  have c1: "SameValueZero pct (round_2dp_spec (jmul (jdiv (ToNumber (get_prop req_body ''marks_obtained''))
                                       (ToNumber (get_prop req_body ''total_marks'')))
                                 (Finite False 100)))"
    unfolding pct_def by (rule percent_rounded)
  have c2346: "(status r = 200 \<longrightarrow>
            (\<exists>x. body r = StudentBody (Some x) \<and> doc_id x = ident \<and> x \<in> set (students d')
               \<and> get_prop (doc_fields x) ''percentage'' = JNum pct))
       \<and> (\<forall>x\<in>set (students d').
             x \<in> set (students d) \<or> get_prop (doc_fields x) ''percentage'' = JNum pct)
       \<and> snd (put_student_2 E d ident req_body) = d'
       \<and> (isValidObjectId ident \<and> findByIdAndUpdate_fault E = None
            \<and> ident \<in> doc_id ` set (students d) \<longrightarrow> status r = 200)"
  proof (cases "Student_findByIdAndUpdate E ident upd d")
    case (Inl e)
    then have "r = \<lparr> status = 500, body = ErrorBody ''Failed to update student'' (Some e) \<rparr>" "d' = d"
      using assms by (simp_all add: put)
    moreover have "\<not> (isValidObjectId ident \<and> findByIdAndUpdate_fault E = None)"
      using Inl by (auto simp: Student_findByIdAndUpdate_def Let_def split: if_splits option.splits)
    ultimately show ?thesis by (simp add: put2 Inl)
  next
    case (Inr pr)
    obtain res d2 where pr: "pr = (res, d2)" by (cases pr)
    from update_store[OF Inr[unfolded pr]]
    show ?thesis
    proof
      assume n: "res = None \<and> d2 = d"
      then have "r = \<lparr> status = 404, body = ErrorBody ''Student not found'' None \<rparr>" "d' = d"
        using assms by (simp_all add: put Inr pr)
      moreover have "ident \<notin> doc_id ` set (students d)"
          if "isValidObjectId ident \<and> findByIdAndUpdate_fault E = None"
        using Inr n that
        by (auto simp: Student_findByIdAndUpdate_def Let_def pr find_None_iff
            split: if_splits option.splits)
      ultimately show ?thesis using n by (auto simp: put2 Inr pr)
    next
      assume "\<exists>x x'. res = Some x' \<and> x \<in> set (students d) \<and> doc_id x = ident
                \<and> x' = x\<lparr>doc_fields := merge_fields (doc_fields x) upd\<rparr>
                \<and> students d2 = map (\<lambda>y. if doc_id y = ident then x' else y) (students d)"
      then obtain x x' where x: "res = Some x'" "x \<in> set (students d)" "doc_id x = ident"
          "x' = x\<lparr>doc_fields := merge_fields (doc_fields x) upd\<rparr>"
          "students d2 = map (\<lambda>y. if doc_id y = ident then x' else y) (students d)"
        by blast
      have r: "r = \<lparr> status = 200, body = StudentBody (Some x') \<rparr>" "d' = d2"
        using assms by (simp_all add: put Inr pr x(1))
      have p: "get_prop (doc_fields x') ''percentage'' = JNum pct"
        by (simp add: x(4) upd_def merged_percentage)
      have i: "doc_id x' = ident" by (simp add: x(4) x(3))
      have mem: "x' \<in> set (students d2)"
        using x(2,3) by (auto simp: x(5) image_iff)
      have others: "y \<in> set (students d) \<or> y = x'" if "y \<in> set (students d2)" for y
        using that by (auto simp: x(5) split: if_splits)
      show ?thesis
        using r p i mem others by (auto simp: put2 Inr pr)
    qed
  qed
  have c1': "jmul (jdiv (ToNumber (get_prop req_body ''marks_obtained''))
                        (ToNumber (get_prop req_body ''total_marks''))) (Finite False 100)
              \<noteq> Finite True 0
            \<Longrightarrow> pct = round_2dp_spec (jmul (jdiv (ToNumber (get_prop req_body ''marks_obtained''))
                                               (ToNumber (get_prop req_body ''total_marks'')))
                                         (Finite False 100))"
    unfolding pct_def by (rule percent_rounded)
  show ?thesis
    using c1 c1' c2346 indep assms unfolding pct_def by simp
qed

lemma ratio_25_50:
  "jmul (jdiv (Finite False 25) (Finite False 50)) (Finite False 100) = Finite False 50"
  by (simp add: to_double_half to_double_numeral)

lemma percent_25_50:
  "StringToNumber (toFixed2 (jmul (jdiv (Finite False 25) (Finite False 50)) (Finite False 100)))
   = Finite False 50"
proof -
  have "StringToNumber (toFixed2 (Finite False 50)) = round_2dp_spec (Finite False 50)"
    using percent_rounded(2)[of "jdiv (Finite False 25) (Finite False 50)"]
    unfolding ratio_25_50 by simp
  then show ?thesis unfolding ratio_25_50 round_2dp_spec_50 .
qed

theorem update_recomputes_percentage_witness:
  "status (fst (put_student sample_env sample_db ''65f000000000000000000001''
                  [(''total_marks'', JNum (Finite False 50)),
                   (''marks_obtained'', JNum (Finite False 25)),
                   (''percentage'', JNum (Finite False 99))])) = 200
   \<and> (\<exists>x. body (fst (put_student sample_env sample_db ''65f000000000000000000001''
                        [(''total_marks'', JNum (Finite False 50)),
                         (''marks_obtained'', JNum (Finite False 25)),
                         (''percentage'', JNum (Finite False 99))])) = StudentBody (Some x)
          \<and> get_prop (doc_fields x) ''percentage'' = JNum (Finite False 50))"
proof -
  let ?b = "[(''total_marks'', JNum (Finite False 50)), (''marks_obtained'', JNum (Finite False 25)),
             (''percentage'', JNum (Finite False 99))]"
  let ?i = "''65f000000000000000000001''"
  let ?p = "put_student sample_env sample_db ?i ?b"
  have eq: "?p = (fst ?p, snd ?p)" by simp
  have ok: "isValidObjectId ?i \<and> findByIdAndUpdate_fault sample_env = None
            \<and> ?i \<in> doc_id ` set (students sample_db)"
    by (simp add: isValidObjectId_def hex_val_def is_digit_def digit_val_def sample_env_def
        sample_db_def)
  have pct: "StringToNumber (toFixed2 (jmul (jdiv (ToNumber (get_prop ?b ''marks_obtained''))
                                              (ToNumber (get_prop ?b ''total_marks'')))
                                        (Finite False 100))) = Finite False 50"
    using percent_25_50 by (simp add: get_prop_def)
  from update_recomputes_percentage[OF eq] ok
  have "status (fst ?p) = 200" by blast
  moreover from update_recomputes_percentage[OF eq] this
  have "\<exists>x. body (fst ?p) = StudentBody (Some x)
            \<and> get_prop (doc_fields x) ''percentage'' = JNum (Finite False 50)"
    unfolding pct by blast
  ultimately show ?thesis by blast
qed

end
